theory Spec2Isabelle
  imports Main "HOL-Library.Sublist"
begin

section \<open>Cover art providers: the base class of \<^verbatim>\<open>providers/base.ts\<close>\<close>

subsection \<open>Platform values\<close>

text \<open>
  A \<^verbatim>\<open>URL\<close> object, as the code observes it: through its getters. The code reads
  \<^verbatim>\<open>href\<close>, \<^verbatim>\<open>host\<close> and \<^verbatim>\<open>pathname\<close>; the scheme, the query string and the
  fragment are the getters \<^verbatim>\<open>protocol\<close>, \<^verbatim>\<open>search\<close> and \<^verbatim>\<open>hash\<close>.
\<close>

record URL =
  href :: string
  protocol :: string
  host :: string
  pathname :: string
  search :: string
  hash :: string

text \<open>
  A \<^verbatim>\<open>RegExp\<close> without the global and sticky flags is the function its \<^verbatim>\<open>exec\<close>
  computes: no result (\<^verbatim>\<open>null\<close>) when the string does not match, and otherwise the
  match array, whose entry 0 is the matched text and whose entry \<open>k\<close> is what the
  \<open>k\<close>-th capturing group captured (\<^verbatim>\<open>undefined\<close>, here \<open>None\<close>, for a group that took
  no part in the match).
\<close>

type_synonym RegExp = "string \<Rightarrow> string option list option"

text \<open>\<^verbatim>\<open>regex.test(s)\<close>\<close>

definition regexp_test :: "RegExp \<Rightarrow> string \<Rightarrow> bool" where
  "regexp_test regex s = (regex s \<noteq> None)"

text \<open>
  \<^verbatim>\<open>s.match(regex)?.[1]\<close>: \<^verbatim>\<open>undefined\<close> when there is no match, and also when the
  match array has no entry 1 (an index past the end of a JavaScript array reads
  \<^verbatim>\<open>undefined\<close>).
\<close>

definition match_group1 :: "string \<Rightarrow> RegExp \<Rightarrow> string option" where
  "match_group1 s regex =
     (case regex s of
        None \<Rightarrow> None
      | Some groups \<Rightarrow> (if 1 < length groups then groups ! 1 else None))"

text \<open>\<^verbatim>\<open>!!id\<close> for \<^verbatim>\<open>id: string | undefined\<close>: the empty string is falsy.\<close>

fun truthy :: "string option \<Rightarrow> bool" where
  "truthy None = False"
| "truthy (Some s) = (s \<noteq> [])"

subsection \<open>The provider\<close>

text \<open>\<^verbatim>\<open>urlRegex: RegExp | RegExp[]\<close>\<close>

datatype urlRegex = Single RegExp | Multi "RegExp list"

record CoverArtProvider =
  supportedDomains :: "string list"
  favicon :: string
  name :: string
  urlRegex :: urlRegex

definition cleanUrl :: "URL \<Rightarrow> string" where
  "cleanUrl url = host url @ pathname url"

definition supportsUrl :: "CoverArtProvider \<Rightarrow> URL \<Rightarrow> bool" where
  "supportsUrl this url =
     (case urlRegex this of
        Multi regexes \<Rightarrow> list_ex (\<lambda>regex. regexp_test regex (cleanUrl url)) regexes
      | Single regex \<Rightarrow> regexp_test regex (cleanUrl url))"

text \<open>
  \<^verbatim>\<open>ids.find((id) => typeof id !== 'undefined')\<close>: the first defined entry, or
  \<^verbatim>\<open>undefined\<close>.
\<close>

definition find_defined :: "string option list \<Rightarrow> string option" where
  "find_defined ids = (case List.find (\<lambda>id'. id' \<noteq> None) ids of None \<Rightarrow> None | Some id' \<Rightarrow> id')"

definition extractId :: "CoverArtProvider \<Rightarrow> URL \<Rightarrow> string option" where
  "extractId this url =
     (case urlRegex this of
        Single regex \<Rightarrow> match_group1 (cleanUrl url) regex
      | Multi regexes \<Rightarrow>
          find_defined (map (\<lambda>regex. match_group1 (cleanUrl url) regex) regexes))"

definition isSafeRedirect :: "CoverArtProvider \<Rightarrow> URL \<Rightarrow> URL \<Rightarrow> bool" where
  "isSafeRedirect this originalUrl redirectedUrl =
     (let id' = extractId this originalUrl
      in truthy id' \<and> id' = extractId this redirectedUrl)"

text \<open>
  The identifier-extraction patterns of a provider in declaration order, whichever way
  they were configured.
\<close>

fun patterns :: "urlRegex \<Rightarrow> RegExp list" where
  "patterns (Single regex) = [regex]"
| "patterns (Multi regexes) = regexes"

subsection \<open>Fetching a page\<close>

text \<open>
  What can go wrong: \<^verbatim>\<open>throw new Error(message)\<close>, the \<^verbatim>\<open>TypeError\<close> of
  \<^verbatim>\<open>new URL(s)\<close> on a string \<open>s\<close> that is no valid URL, and whatever a collaborator
  (the HTTP request, the DOM query) fails with.
\<close>

datatype error = Error string | TypeError string | CollaboratorError string

text \<open>The response of \<^verbatim>\<open>gmxhr\<close>, as far as the code reads it.\<close>

record XHRResponse =
  finalUrl :: string
  responseText :: string

text \<open>The text of the error that \<^verbatim>\<open>fetchPage\<close> throws, a template literal.\<close>

definition redirectMessage :: "string \<Rightarrow> string \<Rightarrow> string" where
  "redirectMessage providerName final =
     ''Refusing to extract images from '' @ providerName
       @ '' provider because the original URL redirected to '' @ final
       @ '', which may be a different release. If this redirected URL is correct, please retry with ''
       @ final @ '' directly.''"

text \<open>
  \<^verbatim>\<open>fetchPage\<close> awaits the HTTP collaborator \<^verbatim>\<open>gmxhr\<close>, whose failure it passes on, and
  builds \<^verbatim>\<open>new URL(resp.finalUrl)\<close> (the platform's URL parser, \<open>new_URL\<close>, which gives
  \<open>None\<close> where the constructor throws) only when the final URL differs from the
  requested one, before \<^verbatim>\<open>isSafeRedirect\<close> is called.
\<close>

definition fetchPage ::
  "(URL \<Rightarrow> error + XHRResponse) \<Rightarrow> (string \<Rightarrow> URL option) \<Rightarrow> CoverArtProvider \<Rightarrow> URL
     \<Rightarrow> error + string" where
  "fetchPage gmxhr new_URL this url =
     (case gmxhr url of
        Inl e \<Rightarrow> Inl e
      | Inr resp \<Rightarrow>
          (if finalUrl resp \<noteq> href url then
             (case new_URL (finalUrl resp) of
                None \<Rightarrow> Inl (TypeError (finalUrl resp))
              | Some redirectedUrl \<Rightarrow>
                  (if \<not> isSafeRedirect this url redirectedUrl
                   then Inl (Error (redirectMessage (name this) (finalUrl resp)))
                   else Inr (responseText resp)))
           else Inr (responseText resp)))"

subsection \<open>Cover art and track images\<close>

datatype ArtworkTypeIDs =
  Back | Booklet | Front | Liner | Medium | Obi | Other | Poster | Raw | Spine | Sticker
  | Track | Tray | Watermark

fun artworkTypeID :: "ArtworkTypeIDs \<Rightarrow> nat" where
  "artworkTypeID Back = 2"
| "artworkTypeID Booklet = 3"
| "artworkTypeID Front = 1"
| "artworkTypeID Liner = 12"
| "artworkTypeID Medium = 4"
| "artworkTypeID Obi = 5"
| "artworkTypeID Other = 8"
| "artworkTypeID Poster = 11"
| "artworkTypeID Raw = 14"
| "artworkTypeID Spine = 6"
| "artworkTypeID Sticker = 10"
| "artworkTypeID Track = 7"
| "artworkTypeID Tray = 9"
| "artworkTypeID Watermark = 13"

record ParsedTrackImage =
  url :: string
  trackNumber :: "string option"

record CoverArt =
  url :: URL
  types :: "ArtworkTypeIDs list option"
  comment :: "string option"
  skipMaximisation :: "bool option"

text \<open>
  Modelled from the spec: \<^verbatim>\<open>filterNonNull\<close> of \<^verbatim>\<open>@lib/util/array\<close>, which is not part
  of \<^verbatim>\<open>base.ts\<close>. It drops the absent entries of an array and keeps the others in
  order.
\<close>

fun filterNonNull :: "'a option list \<Rightarrow> 'a list" where
  "filterNonNull [] = []"
| "filterNonNull (None # xs) = filterNonNull xs"
| "filterNonNull (Some x # xs) = x # filterNonNull xs"

text \<open>
  Modelled from the spec: \<^verbatim>\<open>groupBy\<close> of \<^verbatim>\<open>@lib/util/array\<close>, which is not part of
  \<^verbatim>\<open>base.ts\<close>. It builds an order-preserving multi-map: the keys in the order in which
  they were first met, each with its values in the order in which they were met. The
  map is the list of its entries in insertion order, the order in which
  \<^verbatim>\<open>Map.prototype.forEach\<close> visits them.
\<close>

fun group_add :: "'k \<Rightarrow> 'v \<Rightarrow> ('k \<times> 'v list) list \<Rightarrow> ('k \<times> 'v list) list" where
  "group_add key v [] = [(key, [v])]"
| "group_add key v ((k, vs) # m) =
     (if k = key then (k, vs @ [v]) # m else (k, vs) # group_add key v m)"

definition groupBy :: "'t list \<Rightarrow> ('t \<Rightarrow> 'k) \<Rightarrow> ('t \<Rightarrow> 'v) \<Rightarrow> ('k \<times> 'v list) list" where
  "groupBy array keyFn valTransform =
     foldl (\<lambda>m el. group_add (keyFn el) (valTransform el) m) [] array"

text \<open>\<^verbatim>\<open>Array.prototype.join\<close> on an array of strings.\<close>

fun join :: "string \<Rightarrow> string list \<Rightarrow> string" where
  "join sep [] = []"
| "join sep [x] = x"
| "join sep (x # y # ys) = x @ sep @ join sep (y # ys)"

definition createTrackImageComment :: "string option list \<Rightarrow> string option" where
  "createTrackImageComment trackNumbers =
     (let definedTrackNumbers = filterNonNull trackNumbers
      in if length definedTrackNumbers = 0 then None
         else (let prefix' = (if length definedTrackNumbers = 1 then ''Track'' else ''Tracks'')
               in Some (prefix' @ '' '' @ join '', '' definedTrackNumbers)))"

text \<open>
  The body of the \<^verbatim>\<open>forEach\<close> over the grouped images: one result is pushed for each
  entry of the map, and \<^verbatim>\<open>new URL(imgUrl)\<close> throws for a string that is no valid URL,
  which ends the whole call.
\<close>

fun pushResults ::
  "(string \<Rightarrow> URL option) \<Rightarrow> (string \<times> string option list) list \<Rightarrow> CoverArt list
     \<Rightarrow> error + CoverArt list" where
  "pushResults new_URL [] results = Inr results"
| "pushResults new_URL ((imgUrl, trackNumbers) # rest) results =
     (case new_URL imgUrl of
        None \<Rightarrow> Inl (TypeError imgUrl)
      | Some u \<Rightarrow>
          pushResults new_URL rest
            (results @ [\<lparr>url = u, types = Some [Track],
                         comment = createTrackImageComment trackNumbers,
                         skipMaximisation = None\<rparr>]))"

definition mergeTrackImages ::
  "(string \<Rightarrow> URL option) \<Rightarrow> ParsedTrackImage option list \<Rightarrow> string
     \<Rightarrow> error + CoverArt list" where
  "mergeTrackImages new_URL trackImages mainUrl =
     (let newTrackImages =
            filter (\<lambda>img. ParsedTrackImage.url img \<noteq> mainUrl) (filterNonNull trackImages);
          imgUrlToTrackNumber = groupBy newTrackImages ParsedTrackImage.url trackNumber
      in pushResults new_URL imgUrlToTrackNumber [])"

text \<open>The candidate that the loop pushes for one entry of the map, once its URL is parsed.\<close>

definition trackCandidate :: "(string \<Rightarrow> URL option) \<Rightarrow> string \<times> string option list \<Rightarrow> CoverArt" where
  "trackCandidate new_URL entry =
     \<lparr>url = the (new_URL (fst entry)), types = Some [Track],
      comment = createTrackImageComment (snd entry), skipMaximisation = None\<rparr>"

text \<open>
  The words of the specification for the merger: the track images that are kept (the
  present ones whose URL is not the main image's), the distinct values of a list in the
  order in which they were first met, the track numbers known for a URL in the order
  in which they were met, and the comment for a list of known track numbers.
\<close>

definition keptTrackImages :: "ParsedTrackImage option list \<Rightarrow> string \<Rightarrow> ParsedTrackImage list" where
  "keptTrackImages trackImages mainUrl =
     filter (\<lambda>img. ParsedTrackImage.url img \<noteq> mainUrl) (filterNonNull trackImages)"

definition firstOccurrences :: "'a list \<Rightarrow> 'a list" where
  "firstOccurrences xs = rev (remdups (rev xs))"

definition knownTrackNumbers :: "ParsedTrackImage list \<Rightarrow> string \<Rightarrow> string list" where
  "knownTrackNumbers imgs imgUrl =
     filterNonNull (map trackNumber (filter (\<lambda>img. ParsedTrackImage.url img = imgUrl) imgs))"

fun trackComment :: "string list \<Rightarrow> string option" where
  "trackComment [] = None"
| "trackComment [n] = Some (''Track '' @ n)"
| "trackComment (n # m # ns) = Some (''Tracks '' @ join '', '' (n # m # ns))"

text \<open>
  The map that \<^verbatim>\<open>groupBy\<close> builds from the kept track images, written without the loop:
  the distinct URLs in the order in which they were first met, each with the track
  numbers (known or not) of the images that have it.
\<close>

definition groupedTrackImages :: "ParsedTrackImage list \<Rightarrow> (string \<times> string option list) list" where
  "groupedTrackImages kept =
     map (\<lambda>imgUrl. (imgUrl, map trackNumber (filter (\<lambda>img. ParsedTrackImage.url img = imgUrl) kept)))
       (firstOccurrences (map ParsedTrackImage.url kept))"

subsection \<open>Providers that read the head's \<^verbatim>\<open>og:image\<close> property\<close>

record HTMLMetaElement =
  content :: string

definition ogImageSelector :: string where
  "ogImageSelector = ''head > meta[property='' @ [CHR 0x22] @ ''og:image'' @ [CHR 0x22] @ '']''"

text \<open>
  \<^verbatim>\<open>HeadMetaPropertyProvider.findImages\<close>. The DOM collaborators are parameters:
  \<^verbatim>\<open>parseDOM\<close> turns the page and its base URL into a document, and \<^verbatim>\<open>qs\<close> returns the
  first element that matches a selector or fails when there is none.
\<close>

definition findImages ::
  "(URL \<Rightarrow> error + XHRResponse) \<Rightarrow> (string \<Rightarrow> URL option) \<Rightarrow> (string \<Rightarrow> string \<Rightarrow> 'doc)
     \<Rightarrow> (string \<Rightarrow> 'doc \<Rightarrow> error + HTMLMetaElement) \<Rightarrow> CoverArtProvider \<Rightarrow> URL
     \<Rightarrow> error + CoverArt list" where
  "findImages gmxhr new_URL parseDOM qs this pageUrl =
     (case fetchPage gmxhr new_URL this pageUrl of
        Inl e \<Rightarrow> Inl e
      | Inr page \<Rightarrow>
          (let respDocument = parseDOM page (href pageUrl)
           in case qs ogImageSelector respDocument of
                Inl e \<Rightarrow> Inl e
              | Inr coverElmt \<Rightarrow>
                  (case new_URL (content coverElmt) of
                     None \<Rightarrow> Inl (TypeError (content coverElmt))
                   | Some u \<Rightarrow>
                       Inr [\<lparr>url = u, types = Some [Front], comment = None,
                             skipMaximisation = None\<rparr>])))"

subsection \<open>Domain patterns and provider resolution\<close>

text \<open>
  Modelled from the spec: the Domain Matcher and the resolution of a host to a provider
  (sections 4.1 and 6 of the specification). \<^verbatim>\<open>base.ts\<close> only declares
  \<^verbatim>\<open>supportedDomains\<close> and documents the precedence; the registry that resolves a host
  is not part of it. A pattern \<^verbatim>\<open>*.suffix\<close> matches the host \<^verbatim>\<open>suffix\<close> and every host
  that ends with \<^verbatim>\<open>.suffix\<close>; a pattern without a wildcard matches the host equal to it,
  letter case aside.
\<close>

definition toLower :: "char \<Rightarrow> char" where
  "toLower c =
     (case map_of (zip ''ABCDEFGHIJKLMNOPQRSTUVWXYZ'' ''abcdefghijklmnopqrstuvwxyz'') c of
        None \<Rightarrow> c
      | Some lower \<Rightarrow> lower)"

definition isWildcard :: "string \<Rightarrow> bool" where
  "isWildcard pattern = (take 2 pattern = ''*.'')"

definition literalSuffix :: "string \<Rightarrow> string" where
  "literalSuffix pattern = drop 2 pattern"

definition matches :: "string \<Rightarrow> string \<Rightarrow> bool" where
  "matches pattern h =
     (if isWildcard pattern
      then h = literalSuffix pattern \<or> suffix (''.'' @ literalSuffix pattern) h
      else map toLower h = map toLower pattern)"

text \<open>
  Modelled from the spec: how specific the match of a pattern is. An exact match is more
  specific than every wildcard match, and of two wildcard matches the one with the
  longer literal suffix is the more specific.
\<close>

datatype specificity = NoMatch | WildcardMatch nat | ExactMatch

definition patternSpecificity :: "string \<Rightarrow> string \<Rightarrow> specificity" where
  "patternSpecificity pattern h =
     (if \<not> matches pattern h then NoMatch
      else if isWildcard pattern then WildcardMatch (length (literalSuffix pattern))
      else ExactMatch)"

fun moreSpecific :: "specificity \<Rightarrow> specificity \<Rightarrow> bool" where
  "moreSpecific ExactMatch ExactMatch = False"
| "moreSpecific ExactMatch _ = True"
| "moreSpecific (WildcardMatch m) (WildcardMatch n) = (n < m)"
| "moreSpecific (WildcardMatch m) NoMatch = True"
| "moreSpecific _ _ = False"

definition better :: "specificity \<Rightarrow> specificity \<Rightarrow> specificity" where
  "better best s = (if moreSpecific s best then s else best)"

text \<open>
  Modelled from the spec: the most specific match among the patterns of a provider, and
  the resolution of a host over the whole registry. The winner is a provider whose most
  specific match no other provider's exceeds; of several such providers the one
  registered first is taken.
\<close>

definition mostSpecific :: "CoverArtProvider \<Rightarrow> string \<Rightarrow> specificity" where
  "mostSpecific provider h =
     foldl better NoMatch (map (\<lambda>pattern. patternSpecificity pattern h) (supportedDomains provider))"

definition providerMatches :: "CoverArtProvider \<Rightarrow> string \<Rightarrow> bool" where
  "providerMatches provider h = list_ex (\<lambda>pattern. matches pattern h) (supportedDomains provider)"

definition preferred ::
  "string \<Rightarrow> CoverArtProvider option \<Rightarrow> CoverArtProvider \<Rightarrow> CoverArtProvider option" where
  "preferred h winner provider =
     (case winner of
        None \<Rightarrow> (if mostSpecific provider h = NoMatch then None else Some provider)
      | Some w \<Rightarrow>
          (if moreSpecific (mostSpecific provider h) (mostSpecific w h) then Some provider
           else Some w))"

definition resolveProvider :: "CoverArtProvider list \<Rightarrow> string \<Rightarrow> CoverArtProvider option" where
  "resolveProvider providers h = foldl (preferred h) None providers"

subsection \<open>Example values\<close>

text \<open>
  The pattern \<^verbatim>\<open>/^p(.*)$/\<close> for a literal text \<open>p\<close>, on strings without line
  terminators: it matches the strings that start with \<open>p\<close> and captures the rest.
\<close>

definition prefixPattern :: "string \<Rightarrow> RegExp" where
  "prefixPattern p s =
     (if take (length p) s = p then Some [Some s, Some (drop (length p) s)] else None)"

definition exampleProvider :: CoverArtProvider where
  "exampleProvider =
     \<lparr>supportedDomains = [''example.com''], favicon = ''https://example.com/favicon.ico'',
      name = ''Example'', urlRegex = Single (prefixPattern ''example.com/release/'')\<rparr>"

definition listProvider :: CoverArtProvider where
  "listProvider =
     \<lparr>supportedDomains = [''*.example.com''], favicon = ''https://example.com/favicon.ico'',
      name = ''Example List'',
      urlRegex = Multi [prefixPattern ''example.com/album/'',
                        prefixPattern ''example.com/release/'',
                        prefixPattern ''example.com/'']\<rparr>"

text \<open>The URL object of \<^verbatim>\<open>https://example.com/release/\<close> followed by \<open>i\<close>.\<close>

definition releaseUrl :: "string \<Rightarrow> URL" where
  "releaseUrl i =
     \<lparr>href = ''https://example.com/release/'' @ i, protocol = ''https:'',
      host = ''example.com'', pathname = ''/release/'' @ i, search = [], hash = []\<rparr>"

text \<open>
  The platform's URL parser on the strings of the examples. It parses the release pages
  of the example site and the images of its content delivery host, and it rejects the
  other strings of the examples, which have no scheme (\<^verbatim>\<open>a\<close>, \<^verbatim>\<open>b\<close>, \<^verbatim>\<open>/cover.jpg\<close>):
  \<^verbatim>\<open>new URL\<close> without a base URL throws a \<^verbatim>\<open>TypeError\<close> for them.
\<close>

definition cdnUrl :: "string \<Rightarrow> URL" where
  "cdnUrl file =
     \<lparr>href = ''https://cdn.example/'' @ file, protocol = ''https:'',
      host = ''cdn.example'', pathname = ''/'' @ file, search = [], hash = []\<rparr>"

definition exampleParser :: "string \<Rightarrow> URL option" where
  "exampleParser s =
     (if take 28 s = ''https://example.com/release/'' then Some (releaseUrl (drop 28 s))
      else if take 20 s = ''https://cdn.example/'' then Some (cdnUrl (drop 20 s))
      else None)"

text \<open>An HTTP collaborator that answers every request with the same final URL and body.\<close>

definition respondWith :: "string \<Rightarrow> string \<Rightarrow> URL \<Rightarrow> error + XHRResponse" where
  "respondWith final body requested = Inr \<lparr>finalUrl = final, responseText = body\<rparr>"

text \<open>
  DOM collaborators for the examples. A document is the list of the \<^verbatim>\<open>meta\<close> elements of
  its head, each a property with its content; one page has an \<^verbatim>\<open>og:image\<close> with an
  absolute URL, one has an \<^verbatim>\<open>og:image\<close> with a relative reference, and every other page
  has an empty head.
\<close>

definition exampleParseDOM :: "string \<Rightarrow> string \<Rightarrow> (string \<times> string) list" where
  "exampleParseDOM page baseUrl =
     (if page = ''<head><meta og:image></head>''
      then [(''og:title'', ''A release''), (''og:image'', ''https://cdn.example/cover.jpg'')]
      else if page = ''<head><meta og:image relative></head>''
      then [(''og:image'', ''/cover.jpg'')]
      else [])"

definition exampleQs :: "string \<Rightarrow> (string \<times> string) list \<Rightarrow> error + HTMLMetaElement" where
  "exampleQs selector doc =
     (case List.find (\<lambda>m. selector = ogImageSelector \<and> fst m = ''og:image'') doc of
        None \<Rightarrow> Inl (CollaboratorError ''Could not find required element'')
      | Some m \<Rightarrow> Inr \<lparr>content = snd m\<rparr>)"

text \<open>Track images for the examples.\<close>

definition trackImage :: "string \<Rightarrow> string option \<Rightarrow> ParsedTrackImage option" where
  "trackImage imgUrl n = Some \<lparr>ParsedTrackImage.url = imgUrl, trackNumber = n\<rparr>"

definition exampleTrackImages :: "ParsedTrackImage option list" where
  "exampleTrackImages =
     [trackImage ''https://cdn.example/a.jpg'' (Some ''1''),
      None,
      trackImage ''https://cdn.example/z.jpg'' (Some ''2''),
      trackImage ''https://cdn.example/b.jpg'' None,
      trackImage ''https://cdn.example/a.jpg'' (Some ''3''),
      trackImage ''https://cdn.example/c.jpg'' (Some ''4'')]"

section \<open>Properties\<close>

subsection \<open>Helper facts\<close>

lemma find_defined_Nil: "find_defined [] = None"
  by (simp add: find_defined_def)

lemma find_defined_Cons:
  "find_defined (x # xs) = (case x of None \<Rightarrow> find_defined xs | Some i \<Rightarrow> Some i)"
  by (simp add: find_defined_def split: option.splits)

lemma extractId_patterns:
  "extractId this u =
     find_defined (map (match_group1 (cleanUrl u)) (patterns (urlRegex this)))"
  by (cases "urlRegex this")
     (simp_all add: extractId_def find_defined_Cons find_defined_Nil split: option.splits)

lemma supportsUrl_patterns:
  "supportsUrl this u =
     (\<exists>regex \<in> set (patterns (urlRegex this)). regexp_test regex (cleanUrl u))"
  by (cases "urlRegex this") (simp_all add: supportsUrl_def list_ex_iff)

lemma match_group1_test: "match_group1 s regex = Some i \<Longrightarrow> regexp_test regex s"
  by (auto simp: match_group1_def regexp_test_def split: option.splits)

lemma find_defined_Some_iff:
  "find_defined ids = Some i \<longleftrightarrow>
     (\<exists>k < length ids. ids ! k = Some i \<and> (\<forall>j < k. ids ! j = None))"
proof (induction ids)
  case Nil
  show ?case by (simp add: find_defined_Nil)
next
  case (Cons x xs)
  show ?case
  proof (cases x)
    case None
    have "(\<exists>k < length (x # xs). (x # xs) ! k = Some i \<and> (\<forall>j < k. (x # xs) ! j = None))
          \<longleftrightarrow> (\<exists>k < length xs. xs ! k = Some i \<and> (\<forall>j < k. xs ! j = None))"
      (is "?L \<longleftrightarrow> ?R")
    proof
      assume ?L
      then obtain k where k: "k < length (x # xs)" "(x # xs) ! k = Some i"
        "\<forall>j < k. (x # xs) ! j = None" by blast
      with None obtain k' where k': "k = Suc k'" by (cases k) auto
      have "\<forall>j < k'. xs ! j = None"
      proof (intro allI impI)
        fix j assume "j < k'"
        then have "Suc j < k" using k' by simp
        with k(3) have "(x # xs) ! Suc j = None" by blast
        then show "xs ! j = None" by simp
      qed
      with k k' show ?R by auto
    next
      assume ?R
      then obtain k where k: "k < length xs" "xs ! k = Some i" "\<forall>j < k. xs ! j = None"
        by blast
      have "\<forall>j < Suc k. (x # xs) ! j = None"
      proof (intro allI impI)
        fix j assume "j < Suc k"
        then show "(x # xs) ! j = None" using None k(3) by (cases j) auto
      qed
      with k show ?L by (intro exI [of _ "Suc k"]) simp
    qed
    with None Cons.IH show ?thesis by (simp add: find_defined_Cons)
  next
    case (Some a)
    have "(\<exists>k < length (x # xs). (x # xs) ! k = Some i \<and> (\<forall>j < k. (x # xs) ! j = None))
          \<longleftrightarrow> a = i" (is "?L \<longleftrightarrow> _")
    proof
      assume ?L
      then obtain k where k: "(x # xs) ! k = Some i" "\<forall>j < k. (x # xs) ! j = None"
        by blast
      have "k = 0"
      proof (rule ccontr)
        assume "k \<noteq> 0"
        then have "(x # xs) ! 0 = None" using k(2) by blast
        with Some show False by simp
      qed
      with k(1) Some show "a = i" by simp
    next
      assume "a = i"
      with Some show ?L by (intro exI [of _ 0]) simp
    qed
    with Some show ?thesis by (simp add: find_defined_Cons)
  qed
qed

lemma find_defined_None_iff: "find_defined ids = None \<longleftrightarrow> (\<forall>x \<in> set ids. x = None)"
  by (induction ids) (auto simp: find_defined_Nil find_defined_Cons split: option.splits)

lemma example_cleanUrl: "cleanUrl (releaseUrl i) = ''example.com/release/'' @ i"
  by (simp add: cleanUrl_def releaseUrl_def)

lemma example_match:
  "match_group1 (cleanUrl (releaseUrl i)) (prefixPattern ''example.com/release/'') = Some i"
  by (simp add: example_cleanUrl match_group1_def prefixPattern_def)

lemma example_no_match:
  "prefixPattern ''example.com/album/'' (cleanUrl (releaseUrl i)) = None"
  by (simp add: example_cleanUrl prefixPattern_def)

lemma example_extractId: "extractId exampleProvider (releaseUrl i) = Some i"
  by (simp add: extractId_def exampleProvider_def example_match)

subsection \<open>The cleaned URL\<close>

text \<open>
  C7: \<^verbatim>\<open>cleanUrl\<close> returns the host of the URL followed by its path. It is a function of
  these two components only: two URLs with the same host and the same path have the
  same cleaned string, so that changing the scheme, the query string and the fragment of
  a URL (and with them its \<^verbatim>\<open>href\<close>) leaves the cleaned string as it is.
\<close>

theorem cleanUrl_host_pathname:
  "cleanUrl u = host u @ pathname u
   \<and> (host u = host v \<and> pathname u = pathname v \<longrightarrow> cleanUrl u = cleanUrl v)
   \<and> cleanUrl (u\<lparr>protocol := scheme, search := query, hash := fragment, href := h\<rparr>)
       = cleanUrl u"
  by (simp add: cleanUrl_def)

theorem cleanUrl_host_pathname_witness:
  "cleanUrl \<lparr>href = ''https://example.com/path?x=1#y'', protocol = ''https:'',
             host = ''example.com'', pathname = ''/path'', search = ''?x=1'', hash = ''#y''\<rparr>
   = cleanUrl \<lparr>href = ''http://example.com/path'', protocol = ''http:'',
               host = ''example.com'', pathname = ''/path'', search = [], hash = []\<rparr>
   \<and> cleanUrl \<lparr>href = ''http://example.com/path'', protocol = ''http:'',
               host = ''example.com'', pathname = ''/path'', search = [], hash = []\<rparr>
     = ''example.com/path''"
  using cleanUrl_host_pathname
    [of "\<lparr>href = ''https://example.com/path?x=1#y'', protocol = ''https:'',
          host = ''example.com'', pathname = ''/path'', search = ''?x=1'', hash = ''#y''\<rparr>"
        "\<lparr>href = ''http://example.com/path'', protocol = ''http:'',
          host = ''example.com'', pathname = ''/path'', search = [], hash = []\<rparr>"]
    cleanUrl_host_pathname
    [of "\<lparr>href = ''http://example.com/path'', protocol = ''http:'',
          host = ''example.com'', pathname = ''/path'', search = [], hash = []\<rparr>"]
  by simp

subsection \<open>Supported URLs and identifiers\<close>

text \<open>
  C9: \<^verbatim>\<open>supportsUrl\<close> is true exactly when the cleaned URL matches at least one of the
  provider's patterns, and a provider configured with the single pattern \<open>r\<close> supports
  the same URLs and extracts the same identifiers as one configured with the list
  \<open>[r]\<close>.
\<close>

theorem supportsUrl_any_pattern:
  "(supportsUrl this u
      \<longleftrightarrow> (\<exists>regex \<in> set (patterns (urlRegex this)). regexp_test regex (cleanUrl u)))
   \<and> supportsUrl (this\<lparr>urlRegex := Single r\<rparr>) u = supportsUrl (this\<lparr>urlRegex := Multi [r]\<rparr>) u
   \<and> extractId (this\<lparr>urlRegex := Single r\<rparr>) u = extractId (this\<lparr>urlRegex := Multi [r]\<rparr>) u"
proof (intro conjI)
  show "supportsUrl this u
      \<longleftrightarrow> (\<exists>regex \<in> set (patterns (urlRegex this)). regexp_test regex (cleanUrl u))"
    by (rule supportsUrl_patterns)
  show "supportsUrl (this\<lparr>urlRegex := Single r\<rparr>) u
      = supportsUrl (this\<lparr>urlRegex := Multi [r]\<rparr>) u"
    by (simp add: supportsUrl_def)
  show "extractId (this\<lparr>urlRegex := Single r\<rparr>) u = extractId (this\<lparr>urlRegex := Multi [r]\<rparr>) u"
    by (simp add: extractId_patterns)
qed

theorem supportsUrl_any_pattern_witness:
  "supportsUrl listProvider (releaseUrl ''123'')
   \<and> regexp_test (prefixPattern ''example.com/release/'') (cleanUrl (releaseUrl ''123''))
   \<and> supportsUrl (exampleProvider\<lparr>urlRegex := Multi [prefixPattern ''example.com/release/'']\<rparr>)
        (releaseUrl ''123'')
   \<and> extractId (exampleProvider\<lparr>urlRegex := Multi [prefixPattern ''example.com/release/'']\<rparr>)
        (releaseUrl ''123'') = Some ''123''"
proof -
  let ?r = "prefixPattern ''example.com/release/''"
  have t: "regexp_test ?r (cleanUrl (releaseUrl ''123''))"
    by (simp add: regexp_test_def prefixPattern_def example_cleanUrl)
  have m: "?r \<in> set (patterns (urlRegex listProvider))"
    by (simp add: listProvider_def)
  have e: "exampleProvider\<lparr>urlRegex := Single ?r\<rparr> = exampleProvider"
    by (simp add: exampleProvider_def)
  have s: "supportsUrl exampleProvider (releaseUrl ''123'')"
    using t by (simp add: supportsUrl_def exampleProvider_def)
  from t m have "supportsUrl listProvider (releaseUrl ''123'')"
    using supportsUrl_any_pattern [of listProvider "releaseUrl ''123''"] by blast
  moreover have "supportsUrl (exampleProvider\<lparr>urlRegex := Multi [?r]\<rparr>) (releaseUrl ''123'')"
    using supportsUrl_any_pattern [of exampleProvider "releaseUrl ''123''" ?r] e s by simp
  moreover have "extractId (exampleProvider\<lparr>urlRegex := Multi [?r]\<rparr>) (releaseUrl ''123'')
      = Some ''123''"
    using supportsUrl_any_pattern [of exampleProvider "releaseUrl ''123''" ?r] e
      example_extractId [of "''123''"] by simp
  ultimately show ?thesis using t by simp
qed

text \<open>
  C10: a URL from which the provider extracts an identifier is a URL that the provider
  supports.
\<close>

theorem extractId_supportsUrl: "extractId this u = Some i \<Longrightarrow> supportsUrl this u"
proof -
  assume "extractId this u = Some i"
  then have "find_defined (map (match_group1 (cleanUrl u)) (patterns (urlRegex this))) = Some i"
    by (simp add: extractId_patterns)
  then obtain k where k: "k < length (patterns (urlRegex this))"
      "match_group1 (cleanUrl u) (patterns (urlRegex this) ! k) = Some i"
    by (auto simp: find_defined_Some_iff)
  from k(2) have "regexp_test (patterns (urlRegex this) ! k) (cleanUrl u)"
    by (rule match_group1_test)
  with k(1) show "supportsUrl this u"
    unfolding supportsUrl_patterns using nth_mem by blast
qed

theorem extractId_supportsUrl_witness:
  "extractId exampleProvider (releaseUrl ''123'') = Some ''123''
   \<and> supportsUrl exampleProvider (releaseUrl ''123'')"
  using extractId_supportsUrl [of exampleProvider "releaseUrl ''123''" "''123''"]
    example_extractId [of "''123''"]
  by simp

text \<open>
  C6: \<^verbatim>\<open>extractId\<close> tries the provider's patterns in declaration order on the cleaned
  URL. Its result is the first capturing group of the first pattern that yields one, and
  it is absent exactly when no pattern yields one, in particular when no pattern
  matches.
\<close>

theorem extractId_first_pattern:
  "(extractId this u = Some i \<longleftrightarrow>
      (\<exists>k < length (patterns (urlRegex this)).
          match_group1 (cleanUrl u) (patterns (urlRegex this) ! k) = Some i
          \<and> (\<forall>j < k. match_group1 (cleanUrl u) (patterns (urlRegex this) ! j) = None)))
   \<and> (extractId this u = None \<longleftrightarrow>
        (\<forall>regex \<in> set (patterns (urlRegex this)). match_group1 (cleanUrl u) regex = None))
   \<and> ((\<forall>regex \<in> set (patterns (urlRegex this)). \<not> regexp_test regex (cleanUrl u))
        \<longrightarrow> extractId this u = None)"
proof (intro conjI)
  let ?rs = "patterns (urlRegex this)"
  let ?ids = "map (match_group1 (cleanUrl u)) ?rs"
  have nth: "\<And>k. k < length ?rs \<Longrightarrow> ?ids ! k = match_group1 (cleanUrl u) (?rs ! k)"
    by simp
  show "extractId this u = Some i \<longleftrightarrow>
      (\<exists>k < length ?rs. match_group1 (cleanUrl u) (?rs ! k) = Some i
          \<and> (\<forall>j < k. match_group1 (cleanUrl u) (?rs ! j) = None))"
    unfolding extractId_patterns find_defined_Some_iff
  proof
    assume "\<exists>k < length ?ids. ?ids ! k = Some i \<and> (\<forall>j < k. ?ids ! j = None)"
    then obtain k where k: "k < length ?rs" "?ids ! k = Some i" "\<forall>j < k. ?ids ! j = None"
      by auto
    have "\<forall>j < k. match_group1 (cleanUrl u) (?rs ! j) = None"
    proof (intro allI impI)
      fix j assume j: "j < k"
      with k(1) have "j < length ?rs" by simp
      with k(3) j nth show "match_group1 (cleanUrl u) (?rs ! j) = None" by metis
    qed
    with k(1,2) nth show "\<exists>k < length ?rs. match_group1 (cleanUrl u) (?rs ! k) = Some i
          \<and> (\<forall>j < k. match_group1 (cleanUrl u) (?rs ! j) = None)" by metis
  next
    assume "\<exists>k < length ?rs. match_group1 (cleanUrl u) (?rs ! k) = Some i
          \<and> (\<forall>j < k. match_group1 (cleanUrl u) (?rs ! j) = None)"
    then obtain k where k: "k < length ?rs" "match_group1 (cleanUrl u) (?rs ! k) = Some i"
      "\<forall>j < k. match_group1 (cleanUrl u) (?rs ! j) = None" by auto
    have "\<forall>j < k. ?ids ! j = None"
    proof (intro allI impI)
      fix j assume j: "j < k"
      with k(1) have "j < length ?rs" by simp
      with k(3) j nth show "?ids ! j = None" by metis
    qed
    moreover have "k < length ?ids" using k(1) by simp
    moreover have "?ids ! k = Some i" using k(1,2) nth by metis
    ultimately show "\<exists>k < length ?ids. ?ids ! k = Some i \<and> (\<forall>j < k. ?ids ! j = None)"
      by blast
  qed
  show none: "extractId this u = None \<longleftrightarrow>
      (\<forall>regex \<in> set ?rs. match_group1 (cleanUrl u) regex = None)"
    by (simp add: extractId_patterns find_defined_None_iff)
  show "(\<forall>regex \<in> set ?rs. \<not> regexp_test regex (cleanUrl u)) \<longrightarrow> extractId this u = None"
  proof
    assume no: "\<forall>regex \<in> set ?rs. \<not> regexp_test regex (cleanUrl u)"
    have "\<forall>regex \<in> set ?rs. match_group1 (cleanUrl u) regex = None"
    proof
      fix regex assume "regex \<in> set ?rs"
      with no have "regex (cleanUrl u) = None" by (simp add: regexp_test_def)
      then show "match_group1 (cleanUrl u) regex = None" by (simp add: match_group1_def)
    qed
    with none show "extractId this u = None" by simp
  qed
qed

theorem extractId_first_pattern_witness:
  "match_group1 (cleanUrl (releaseUrl ''123'')) (patterns (urlRegex listProvider) ! 0) = None
   \<and> match_group1 (cleanUrl (releaseUrl ''123'')) (patterns (urlRegex listProvider) ! 1)
       = Some ''123''
   \<and> match_group1 (cleanUrl (releaseUrl ''123'')) (patterns (urlRegex listProvider) ! 2)
       = Some ''release/123''
   \<and> extractId listProvider (releaseUrl ''123'') = Some ''123''"
proof -
  let ?c = "cleanUrl (releaseUrl ''123'')"
  let ?rs = "patterns (urlRegex listProvider)"
  have a: "match_group1 ?c (?rs ! 0) = None"
    by (simp add: listProvider_def match_group1_def example_no_match)
  have b: "match_group1 ?c (?rs ! 1) = Some ''123''"
    by (simp add: listProvider_def example_match)
  have c: "match_group1 ?c (?rs ! 2) = Some ''release/123''"
    by (simp add: listProvider_def example_cleanUrl match_group1_def prefixPattern_def)
  have l: "1 < length ?rs" by (simp add: listProvider_def)
  have "\<forall>j < (1::nat). match_group1 ?c (?rs ! j) = None" using a by simp
  with b l have "\<exists>k < length ?rs. match_group1 ?c (?rs ! k) = Some ''123''
      \<and> (\<forall>j < k. match_group1 ?c (?rs ! j) = None)" by blast
  then have "extractId listProvider (releaseUrl ''123'') = Some ''123''"
    using extractId_first_pattern [of listProvider "releaseUrl ''123''" "''123''"] by blast
  with a b c show ?thesis by simp
qed

subsection \<open>Safe redirects\<close>

text \<open>
  C2, as the code has it: \<^verbatim>\<open>isSafeRedirect\<close> is true exactly when the identifier of the
  original URL is present, is not the empty string, and is the identifier of the
  redirected URL. A URL whose identifier is present and not empty redirects safely to
  itself.
\<close>

theorem isSafeRedirect_iff:
  "(isSafeRedirect this originalUrl redirectedUrl \<longleftrightarrow>
      (\<exists>i. i \<noteq> [] \<and> extractId this originalUrl = Some i
           \<and> extractId this redirectedUrl = Some i))
   \<and> (extractId this u = Some i \<and> i \<noteq> [] \<longrightarrow> isSafeRedirect this u u)"
proof (intro conjI)
  show "isSafeRedirect this originalUrl redirectedUrl \<longleftrightarrow>
      (\<exists>i. i \<noteq> [] \<and> extractId this originalUrl = Some i
           \<and> extractId this redirectedUrl = Some i)"
    by (cases "extractId this originalUrl") (auto simp: isSafeRedirect_def Let_def)
  show "extractId this u = Some i \<and> i \<noteq> [] \<longrightarrow> isSafeRedirect this u u"
    by (simp add: isSafeRedirect_def Let_def)
qed

theorem isSafeRedirect_iff_witness:
  "extractId exampleProvider (releaseUrl ''123'') = Some ''123''
   \<and> isSafeRedirect exampleProvider (releaseUrl ''123'') (releaseUrl ''123'')
   \<and> extractId exampleProvider (releaseUrl ''456'') = Some ''456''
   \<and> \<not> isSafeRedirect exampleProvider (releaseUrl ''123'') (releaseUrl ''456'')"
  using isSafeRedirect_iff
      [of exampleProvider "releaseUrl ''123''" "releaseUrl ''456''" "releaseUrl ''123''" "''123''"]
    example_extractId [of "''123''"] example_extractId [of "''456''"]
  by simp

text \<open>
  The claim as the specification words it, with identifiers that are only present and
  equal, fails for the empty identifier: \<^verbatim>\<open>https://example.com/release/\<close> has the
  identifier \<^verbatim>\<open>""\<close> and does not redirect safely to itself.
\<close>

theorem isSafeRedirect_empty_id_counterexample:
  "extractId exampleProvider (releaseUrl []) = Some []
   \<and> \<not> isSafeRedirect exampleProvider (releaseUrl []) (releaseUrl [])"
  by (simp add: isSafeRedirect_def Let_def example_extractId)

subsection \<open>The redirect guard\<close>

lemma sublist_redirectMessage:
  "sublist providerName (redirectMessage providerName final)
   \<and> sublist final (redirectMessage providerName final)"
  unfolding redirectMessage_def by (metis sublist_appendI append.assoc)

lemma example_parse: "exampleParser (''https://example.com/release/'' @ i) = Some (releaseUrl i)"
  by (simp add: exampleParser_def)

lemma example_href: "href (releaseUrl i) = ''https://example.com/release/'' @ i"
  by (simp add: releaseUrl_def)

lemma example_unsafe: "\<not> isSafeRedirect exampleProvider (releaseUrl ''123'') (releaseUrl ''456'')"
  by (simp add: isSafeRedirect_def Let_def example_extractId)

lemma example_fetch_unsafe:
  "fetchPage (respondWith ''https://example.com/release/456'' ''<html>456</html>'')
      exampleParser exampleProvider (releaseUrl ''123'')
   = Inl (Error (redirectMessage ''Example'' ''https://example.com/release/456''))"
proof -
  have p: "exampleParser ''https://example.com/release/456'' = Some (releaseUrl ''456'')"
    using example_parse [of "''456''"] by simp
  have h: "href (releaseUrl ''123'') \<noteq> ''https://example.com/release/456''"
    by (simp add: example_href)
  have n: "name exampleProvider = ''Example''" by (simp add: exampleProvider_def)
  show ?thesis
    using p h n example_unsafe by (simp add: fetchPage_def respondWith_def)
qed

text \<open>
  C1, as the code has it. When the HTTP collaborator answers with a final URL that is not
  the requested one and the redirect to it is not safe, \<^verbatim>\<open>fetchPage\<close> fails and returns
  no content; the message of the error contains the name of the provider and the final
  URL. When the final URL is the requested one, or the redirect is safe, \<^verbatim>\<open>fetchPage\<close>
  returns the body of the response as it is. A final URL that differs from the requested
  one and that the URL constructor rejects makes \<^verbatim>\<open>fetchPage\<close> fail with the
  constructor's \<^verbatim>\<open>TypeError\<close>.
\<close>

theorem fetchPage_redirect_guard:
  assumes "gmxhr u = Inr resp"
  shows "(finalUrl resp \<noteq> href u \<and> new_URL (finalUrl resp) = Some redirectedUrl
            \<and> \<not> isSafeRedirect this u redirectedUrl
          \<longrightarrow> fetchPage gmxhr new_URL this u
                = Inl (Error (redirectMessage (name this) (finalUrl resp)))
              \<and> sublist (name this) (redirectMessage (name this) (finalUrl resp))
              \<and> sublist (finalUrl resp) (redirectMessage (name this) (finalUrl resp)))
       \<and> (finalUrl resp \<noteq> href u \<and> new_URL (finalUrl resp) = None
          \<longrightarrow> fetchPage gmxhr new_URL this u = Inl (TypeError (finalUrl resp)))
       \<and> (finalUrl resp = href u
            \<or> (new_URL (finalUrl resp) = Some redirectedUrl
                \<and> isSafeRedirect this u redirectedUrl)
          \<longrightarrow> fetchPage gmxhr new_URL this u = Inr (responseText resp))"
  using assms sublist_redirectMessage [of "name this" "finalUrl resp"]
  by (auto simp: fetchPage_def)

theorem fetchPage_redirect_guard_witness:
  "fetchPage (respondWith ''https://example.com/release/456'' ''<html>456</html>'')
      exampleParser exampleProvider (releaseUrl ''123'')
     = Inl (Error (redirectMessage ''Example'' ''https://example.com/release/456''))
   \<and> sublist ''Example'' (redirectMessage ''Example'' ''https://example.com/release/456'')
   \<and> sublist ''https://example.com/release/456''
        (redirectMessage ''Example'' ''https://example.com/release/456'')
   \<and> fetchPage (respondWith ''https://example.com/release/123'' ''<html>123</html>'')
        exampleParser exampleProvider (releaseUrl ''123'') = Inr ''<html>123</html>''
   \<and> fetchPage (respondWith ''https://example.com/release/123'' ''<html>123</html>'')
        exampleParser exampleProvider
        ((releaseUrl ''123'')\<lparr>href := ''http://example.com/release/123'', protocol := ''http:''\<rparr>)
       = Inr ''<html>123</html>''"
proof -
  let ?to456 = "respondWith ''https://example.com/release/456'' ''<html>456</html>''"
  let ?to123 = "respondWith ''https://example.com/release/123'' ''<html>123</html>''"
  let ?r456 = "\<lparr>finalUrl = ''https://example.com/release/456'', responseText = ''<html>456</html>''\<rparr>"
  let ?r123 = "\<lparr>finalUrl = ''https://example.com/release/123'', responseText = ''<html>123</html>''\<rparr>"
  let ?http = "(releaseUrl ''123'')\<lparr>href := ''http://example.com/release/123'', protocol := ''http:''\<rparr>"
  have n: "name exampleProvider = ''Example''" by (simp add: exampleProvider_def)
  have p456: "exampleParser ''https://example.com/release/456'' = Some (releaseUrl ''456'')"
    using example_parse [of "''456''"] by simp
  have p123: "exampleParser ''https://example.com/release/123'' = Some (releaseUrl ''123'')"
    using example_parse [of "''123''"] by simp
  have h: "href (releaseUrl ''123'') = ''https://example.com/release/123''"
    by (simp add: example_href)
  have unsafe: "fetchPage ?to456 exampleParser exampleProvider (releaseUrl ''123'')
        = Inl (Error (redirectMessage ''Example'' ''https://example.com/release/456''))
      \<and> sublist ''Example'' (redirectMessage ''Example'' ''https://example.com/release/456'')
      \<and> sublist ''https://example.com/release/456''
          (redirectMessage ''Example'' ''https://example.com/release/456'')"
    using fetchPage_redirect_guard
        [of ?to456 "releaseUrl ''123''" ?r456 exampleParser "releaseUrl ''456''" exampleProvider]
      p456 h n example_unsafe
    by (simp add: respondWith_def)
  have same: "fetchPage ?to123 exampleParser exampleProvider (releaseUrl ''123'')
        = Inr ''<html>123</html>''"
    using fetchPage_redirect_guard
        [of ?to123 "releaseUrl ''123''" ?r123 exampleParser "releaseUrl ''123''" exampleProvider]
      h
    by (simp add: respondWith_def)
  have "cleanUrl ?http = cleanUrl (releaseUrl ''123'')" by (simp add: cleanUrl_def)
  then have "extractId exampleProvider ?http = extractId exampleProvider (releaseUrl ''123'')"
    by (simp add: extractId_patterns)
  then have id_http: "extractId exampleProvider ?http = Some ''123''"
    by (simp add: example_extractId)
  have safe_http: "isSafeRedirect exampleProvider ?http (releaseUrl ''123'')"
    using id_http example_extractId [of "''123''"] by (simp add: isSafeRedirect_def Let_def)
  have safe: "fetchPage ?to123 exampleParser exampleProvider ?http = Inr ''<html>123</html>''"
    using fetchPage_redirect_guard
        [of ?to123 ?http ?r123 exampleParser "releaseUrl ''123''" exampleProvider]
      p123 safe_http
    by (simp add: respondWith_def)
  from unsafe same safe show ?thesis by simp
qed

text \<open>
  The message does not name the original URL: the request for
  \<^verbatim>\<open>https://example.com/release/123\<close> that ends at release 456, which is not a safe
  redirect, fails with a message in which the text of the original URL does not occur.
\<close>

theorem fetchPage_message_counterexample:
  "finalUrl \<lparr>finalUrl = ''https://example.com/release/456'', responseText = ''<html>456</html>''\<rparr>
     \<noteq> href (releaseUrl ''123'')
   \<and> \<not> isSafeRedirect exampleProvider (releaseUrl ''123'') (releaseUrl ''456'')
   \<and> fetchPage (respondWith ''https://example.com/release/456'' ''<html>456</html>'')
        exampleParser exampleProvider (releaseUrl ''123'')
       = Inl (Error (redirectMessage ''Example'' ''https://example.com/release/456''))
   \<and> \<not> sublist (href (releaseUrl ''123''))
          (redirectMessage ''Example'' ''https://example.com/release/456'')"
proof -
  have "\<not> sublist (href (releaseUrl ''123''))
          (redirectMessage ''Example'' ''https://example.com/release/456'')"
    by code_simp
  moreover have "''https://example.com/release/456'' \<noteq> href (releaseUrl ''123'')"
    by (simp add: example_href)
  ultimately show ?thesis using example_unsafe example_fetch_unsafe by simp
qed

subsection \<open>The image of the head's \<^verbatim>\<open>og:image\<close> property\<close>

text \<open>
  C8, as the code has it. When the page has been fetched and its head has a \<^verbatim>\<open>meta\<close>
  element with the property \<^verbatim>\<open>og:image\<close> whose content the URL constructor accepts,
  \<^verbatim>\<open>findImages\<close> returns exactly one candidate: its URL is the content of the element,
  its only type is front, and it has no comment. When the constructor rejects the
  content, \<^verbatim>\<open>findImages\<close> fails with its \<^verbatim>\<open>TypeError\<close>. When the element is absent, the
  failure of the query is the failure of \<^verbatim>\<open>findImages\<close>, which returns no candidates.
\<close>

theorem findImages_og_image:
  assumes "fetchPage gmxhr new_URL this u = Inr page"
  shows "(qs ogImageSelector (parseDOM page (href u)) = Inr coverElmt
            \<and> new_URL (content coverElmt) = Some imageUrl
          \<longrightarrow> findImages gmxhr new_URL parseDOM qs this u
                = Inr [\<lparr>url = imageUrl, types = Some [Front], comment = None,
                        skipMaximisation = None\<rparr>])
       \<and> (qs ogImageSelector (parseDOM page (href u)) = Inr coverElmt
            \<and> new_URL (content coverElmt) = None
          \<longrightarrow> findImages gmxhr new_URL parseDOM qs this u
                = Inl (TypeError (content coverElmt)))
       \<and> (qs ogImageSelector (parseDOM page (href u)) = Inl e
          \<longrightarrow> findImages gmxhr new_URL parseDOM qs this u = Inl e)"
  using assms by (simp add: findImages_def Let_def)

theorem findImages_og_image_witness:
  "findImages (respondWith ''https://example.com/release/123'' ''<head><meta og:image></head>'')
      exampleParser exampleParseDOM exampleQs exampleProvider (releaseUrl ''123'')
     = Inr [\<lparr>url = cdnUrl ''cover.jpg'', types = Some [Front], comment = None, skipMaximisation = None\<rparr>]
   \<and> findImages (respondWith ''https://example.com/release/123'' ''<head></head>'')
      exampleParser exampleParseDOM exampleQs exampleProvider (releaseUrl ''123'')
     = Inl (CollaboratorError ''Could not find required element'')"
proof -
  let ?withImage = "respondWith ''https://example.com/release/123'' ''<head><meta og:image></head>''"
  let ?without = "respondWith ''https://example.com/release/123'' ''<head></head>''"
  let ?u = "releaseUrl ''123''"
  have h: "href ?u = ''https://example.com/release/123''" by (simp add: example_href)
  have f1: "fetchPage ?withImage exampleParser exampleProvider ?u
      = Inr ''<head><meta og:image></head>''"
    using h by (simp add: fetchPage_def respondWith_def)
  have f2: "fetchPage ?without exampleParser exampleProvider ?u = Inr ''<head></head>''"
    using h by (simp add: fetchPage_def respondWith_def)
  have q1: "exampleQs ogImageSelector (exampleParseDOM ''<head><meta og:image></head>'' (href ?u))
      = Inr \<lparr>content = ''https://cdn.example/cover.jpg''\<rparr>"
    by (simp add: exampleQs_def exampleParseDOM_def)
  have q2: "exampleQs ogImageSelector (exampleParseDOM ''<head></head>'' (href ?u))
      = Inl (CollaboratorError ''Could not find required element'')"
    by (simp add: exampleQs_def exampleParseDOM_def)
  have c: "exampleParser (content \<lparr>content = ''https://cdn.example/cover.jpg''\<rparr>)
      = Some (cdnUrl ''cover.jpg'')"
    by (simp add: exampleParser_def)
  have "findImages ?withImage exampleParser exampleParseDOM exampleQs exampleProvider ?u
      = Inr [\<lparr>url = cdnUrl ''cover.jpg'', types = Some [Front], comment = None, skipMaximisation = None\<rparr>]"
    using findImages_og_image [OF f1, where qs = exampleQs and parseDOM = exampleParseDOM
        and coverElmt = "\<lparr>content = ''https://cdn.example/cover.jpg''\<rparr>"
        and imageUrl = "cdnUrl ''cover.jpg''"] q1 c
    by blast
  moreover have "findImages ?without exampleParser exampleParseDOM exampleQs exampleProvider ?u
      = Inl (CollaboratorError ''Could not find required element'')"
    using findImages_og_image [OF f2, where qs = exampleQs and parseDOM = exampleParseDOM
        and e = "CollaboratorError ''Could not find required element''"] q2
    by blast
  ultimately show ?thesis by simp
qed

text \<open>
  Without the condition on the content the claim fails: a page whose \<^verbatim>\<open>og:image\<close> is the
  relative reference \<^verbatim>\<open>/cover.jpg\<close> has the element, and \<^verbatim>\<open>findImages\<close> returns no
  candidate for it, since \<^verbatim>\<open>new URL("/cover.jpg")\<close> throws.
\<close>

theorem findImages_relative_content_counterexample:
  "fetchPage (respondWith ''https://example.com/release/123'' ''<head><meta og:image relative></head>'')
      exampleParser exampleProvider (releaseUrl ''123'')
     = Inr ''<head><meta og:image relative></head>''
   \<and> exampleQs ogImageSelector
        (exampleParseDOM ''<head><meta og:image relative></head>'' (href (releaseUrl ''123'')))
     = Inr \<lparr>content = ''/cover.jpg''\<rparr>
   \<and> findImages (respondWith ''https://example.com/release/123'' ''<head><meta og:image relative></head>'')
        exampleParser exampleParseDOM exampleQs exampleProvider (releaseUrl ''123'')
     = Inl (TypeError ''/cover.jpg'')"
proof -
  let ?page = "''<head><meta og:image relative></head>''"
  let ?u = "releaseUrl ''123''"
  have h: "href ?u = ''https://example.com/release/123''" by (simp add: example_href)
  have f: "fetchPage (respondWith ''https://example.com/release/123'' ?page)
      exampleParser exampleProvider ?u = Inr ?page"
    using h by (simp add: fetchPage_def respondWith_def)
  have q: "exampleQs ogImageSelector (exampleParseDOM ?page (href ?u))
      = Inr \<lparr>content = ''/cover.jpg''\<rparr>"
    by (simp add: exampleQs_def exampleParseDOM_def)
  have c: "exampleParser ''/cover.jpg'' = None" by (simp add: exampleParser_def)
  from f q c show ?thesis by (simp add: findImages_def Let_def)
qed

subsection \<open>Merging track images\<close>

lemma group_add_map:
  "distinct ks \<Longrightarrow>
   group_add k v (map (\<lambda>k'. (k', f k')) ks) =
     (if k \<in> set ks then map (\<lambda>k'. (k', if k' = k then f k' @ [v] else f k')) ks
      else map (\<lambda>k'. (k', f k')) ks @ [(k, [v])])"
  by (induction ks) auto

lemma groupBy_snoc:
  "groupBy (xs @ [x]) keyFn valTransform
     = group_add (keyFn x) (valTransform x) (groupBy xs keyFn valTransform)"
  by (simp add: groupBy_def)

lemma firstOccurrences_snoc:
  "firstOccurrences (xs @ [x])
     = (if x \<in> set xs then firstOccurrences xs else firstOccurrences xs @ [x])"
  by (simp add: firstOccurrences_def)

lemma distinct_firstOccurrences: "distinct (firstOccurrences xs)"
  by (simp add: firstOccurrences_def)

lemma set_firstOccurrences: "set (firstOccurrences xs) = set xs"
  by (simp add: firstOccurrences_def)

lemma groupBy_eq:
  "groupBy xs keyFn valTransform
     = map (\<lambda>k. (k, map valTransform (filter (\<lambda>y. keyFn y = k) xs)))
         (firstOccurrences (map keyFn xs))"
proof (induction xs rule: rev_induct)
  case Nil
  show ?case by (simp add: groupBy_def firstOccurrences_def)
next
  case (snoc x xs)
  let ?f = "\<lambda>k. map valTransform (filter (\<lambda>y. keyFn y = k) xs)"
  let ?ks = "firstOccurrences (map keyFn xs)"
  have "groupBy (xs @ [x]) keyFn valTransform
      = group_add (keyFn x) (valTransform x) (map (\<lambda>k. (k, ?f k)) ?ks)"
    by (simp add: groupBy_snoc snoc.IH)
  also have "\<dots> = (if keyFn x \<in> set ?ks
        then map (\<lambda>k'. (k', if k' = keyFn x then ?f k' @ [valTransform x] else ?f k')) ?ks
        else map (\<lambda>k'. (k', ?f k')) ?ks @ [(keyFn x, [valTransform x])])"
    by (rule group_add_map) (rule distinct_firstOccurrences)
  also have "\<dots> = map (\<lambda>k. (k, map valTransform (filter (\<lambda>y. keyFn y = k) (xs @ [x]))))
         (firstOccurrences (map keyFn (xs @ [x])))"
  proof (cases "keyFn x \<in> set ?ks")
    case True
    then have "keyFn x \<in> set (map keyFn xs)" by (simp add: set_firstOccurrences)
    then show ?thesis using True by (auto simp: firstOccurrences_snoc)
  next
    case False
    then have n: "keyFn x \<notin> set (map keyFn xs)" by (simp add: set_firstOccurrences)
    then have "filter (\<lambda>y. keyFn y = keyFn x) xs = []"
      unfolding filter_empty_conv by (metis image_eqI set_map)
    moreover have "\<forall>k \<in> set ?ks. k \<noteq> keyFn x" using False by auto
    ultimately show ?thesis using False n by (auto simp: firstOccurrences_snoc)
  qed
  finally show ?case .
qed

lemma createTrackImageComment_trackComment:
  "createTrackImageComment trackNumbers = trackComment (filterNonNull trackNumbers)"
proof (cases "filterNonNull trackNumbers")
  case Nil
  then show ?thesis by (simp add: createTrackImageComment_def)
next
  case (Cons n ns)
  then show ?thesis by (cases ns) (simp_all add: createTrackImageComment_def)
qed

lemma pushResults_parsed:
  "\<forall>e \<in> set m. new_URL (fst e) \<noteq> None \<Longrightarrow>
   pushResults new_URL m results = Inr (results @ map (trackCandidate new_URL) m)"
proof (induction m arbitrary: results)
  case Nil
  show ?case by simp
next
  case (Cons e m)
  obtain imgUrl trackNumbers where e: "e = (imgUrl, trackNumbers)" by (cases e)
  from Cons.prems e obtain u where u: "new_URL imgUrl = Some u" by auto
  from Cons.prems have "\<forall>e \<in> set m. new_URL (fst e) \<noteq> None" by simp
  from Cons.IH [OF this] e u show ?case by (simp add: trackCandidate_def)
qed

lemma pushResults_Inr:
  "pushResults new_URL m results = Inr cs \<Longrightarrow> \<forall>e \<in> set m. new_URL (fst e) \<noteq> None"
proof (induction m arbitrary: results)
  case Nil
  show ?case by simp
next
  case (Cons e m)
  obtain imgUrl trackNumbers where e: "e = (imgUrl, trackNumbers)" by (cases e)
  from Cons.prems e obtain u where u: "new_URL imgUrl = Some u"
    by (cases "new_URL imgUrl") auto
  with Cons.prems e have "pushResults new_URL m (results @ [\<lparr>url = u, types = Some [Track],
                         comment = createTrackImageComment trackNumbers,
                         skipMaximisation = None\<rparr>]) = Inr cs" by simp
  from Cons.IH [OF this] e u show ?case by simp
qed

lemma filterNonNull_map_Some: "filterNonNull (map Some xs) = xs"
  by (induction xs) simp_all

lemma set_filterNonNull: "set (filterNonNull xs) = {x. Some x \<in> set xs}"
  by (induction xs rule: filterNonNull.induct) auto

lemma keptTrackImages_idem:
  "keptTrackImages (map Some (keptTrackImages trackImages mainUrl)) mainUrl
     = keptTrackImages trackImages mainUrl"
  by (simp add: keptTrackImages_def filterNonNull_map_Some)

lemma set_keptTrackImages:
  "set (keptTrackImages trackImages mainUrl)
     = {img. Some img \<in> set trackImages \<and> ParsedTrackImage.url img \<noteq> mainUrl}"
  by (auto simp: keptTrackImages_def set_filterNonNull)

lemma mergeTrackImages_eq:
  "mergeTrackImages new_URL trackImages mainUrl
     = pushResults new_URL (groupedTrackImages (keptTrackImages trackImages mainUrl)) []"
  by (simp add: mergeTrackImages_def Let_def keptTrackImages_def groupedTrackImages_def groupBy_eq)

lemma fst_groupedTrackImages:
  "fst ` set (groupedTrackImages kept) = ParsedTrackImage.url ` set kept"
  by (simp add: groupedTrackImages_def image_image set_firstOccurrences)

lemma all_groupedTrackImages:
  "(\<forall>e \<in> set (groupedTrackImages kept). P (fst e))
     \<longleftrightarrow> (\<forall>img \<in> set kept. P (ParsedTrackImage.url img))"
  by (simp add: groupedTrackImages_def set_firstOccurrences)

lemma trackCandidate_grouped:
  "map (trackCandidate new_URL) (groupedTrackImages kept)
     = map (\<lambda>imgUrl. \<lparr>url = the (new_URL imgUrl), types = Some [Track],
                       comment = trackComment (knownTrackNumbers kept imgUrl),
                       skipMaximisation = None\<rparr>)
         (firstOccurrences (map ParsedTrackImage.url kept))"
  by (simp add: groupedTrackImages_def trackCandidate_def knownTrackNumbers_def
      createTrackImageComment_trackComment)

text \<open>
  C4, as the code has it. When every kept track image has a URL that the URL constructor
  accepts, \<^verbatim>\<open>mergeTrackImages\<close> returns one candidate for each distinct URL of the kept
  images, in the order in which the URLs were first met: its only type is track, and
  its comment is built from the track numbers known for that URL, in the order in which
  they were met (\<open>Track N\<close> for one, \<open>Tracks N, M, \<dots>\<close> for several, no comment for
  none). When the URL constructor rejects the URL of a kept image, the call fails.
\<close>

theorem mergeTrackImages_one_candidate_per_url:
  "((\<forall>img \<in> set (keptTrackImages trackImages mainUrl). new_URL (ParsedTrackImage.url img) \<noteq> None)
      \<longrightarrow> mergeTrackImages new_URL trackImages mainUrl
          = Inr (map (\<lambda>imgUrl. \<lparr>url = the (new_URL imgUrl), types = Some [Track],
                       comment = trackComment
                         (knownTrackNumbers (keptTrackImages trackImages mainUrl) imgUrl),
                       skipMaximisation = None\<rparr>)
                 (firstOccurrences
                    (map ParsedTrackImage.url (keptTrackImages trackImages mainUrl)))))
   \<and> ((\<exists>img \<in> set (keptTrackImages trackImages mainUrl). new_URL (ParsedTrackImage.url img) = None)
      \<longrightarrow> (\<exists>e. mergeTrackImages new_URL trackImages mainUrl = Inl e))
   \<and> distinct (firstOccurrences (map ParsedTrackImage.url (keptTrackImages trackImages mainUrl)))
   \<and> set (firstOccurrences (map ParsedTrackImage.url (keptTrackImages trackImages mainUrl)))
       = ParsedTrackImage.url ` set (keptTrackImages trackImages mainUrl)"
proof (intro conjI impI)
  let ?kept = "keptTrackImages trackImages mainUrl"
  assume "\<forall>img \<in> set ?kept. new_URL (ParsedTrackImage.url img) \<noteq> None"
  then have "\<forall>e \<in> set (groupedTrackImages ?kept). new_URL (fst e) \<noteq> None"
    using all_groupedTrackImages [of ?kept "\<lambda>s. new_URL s \<noteq> None"] by blast
  then show "mergeTrackImages new_URL trackImages mainUrl
          = Inr (map (\<lambda>imgUrl. \<lparr>url = the (new_URL imgUrl), types = Some [Track],
                       comment = trackComment (knownTrackNumbers ?kept imgUrl),
                       skipMaximisation = None\<rparr>)
                 (firstOccurrences (map ParsedTrackImage.url ?kept)))"
    by (simp add: mergeTrackImages_eq pushResults_parsed trackCandidate_grouped)
next
  let ?kept = "keptTrackImages trackImages mainUrl"
  assume "\<exists>img \<in> set ?kept. new_URL (ParsedTrackImage.url img) = None"
  then have bad: "\<not> (\<forall>e \<in> set (groupedTrackImages ?kept). new_URL (fst e) \<noteq> None)"
    using all_groupedTrackImages [of ?kept "\<lambda>s. new_URL s \<noteq> None"] by blast
  show "\<exists>e. mergeTrackImages new_URL trackImages mainUrl = Inl e"
  proof (cases "mergeTrackImages new_URL trackImages mainUrl")
    case (Inl e)
    then show ?thesis by blast
  next
    case (Inr cs)
    then have "\<forall>e \<in> set (groupedTrackImages ?kept). new_URL (fst e) \<noteq> None"
      unfolding mergeTrackImages_eq by (rule pushResults_Inr)
    with bad show ?thesis by blast
  qed
next
  show "distinct (firstOccurrences (map ParsedTrackImage.url (keptTrackImages trackImages mainUrl)))"
    by (rule distinct_firstOccurrences)
next
  show "set (firstOccurrences (map ParsedTrackImage.url (keptTrackImages trackImages mainUrl)))
       = ParsedTrackImage.url ` set (keptTrackImages trackImages mainUrl)"
    by (simp add: set_firstOccurrences)
qed

text \<open>
  C5: absent entries and entries with the URL of the main image contribute nothing.
  The result is the result for the kept images alone, every candidate of a result
  comes from a present entry whose URL is not that of the main image, and an input
  that has only absent entries and entries with the URL of the main image gives the
  empty result.
\<close>

theorem mergeTrackImages_drops:
  "mergeTrackImages new_URL trackImages mainUrl
     = mergeTrackImages new_URL (map Some (keptTrackImages trackImages mainUrl)) mainUrl
   \<and> (mergeTrackImages new_URL trackImages mainUrl = Inr cs
      \<longrightarrow> (\<forall>c \<in> set cs. \<exists>img. Some img \<in> set trackImages \<and> ParsedTrackImage.url img \<noteq> mainUrl
                \<and> new_URL (ParsedTrackImage.url img) = Some (CoverArt.url c)))
   \<and> ((\<forall>entry \<in> set trackImages.
          entry = None \<or> (\<exists>img. entry = Some img \<and> ParsedTrackImage.url img = mainUrl))
      \<longrightarrow> mergeTrackImages new_URL trackImages mainUrl = Inr [])"
proof (intro conjI impI)
  show "mergeTrackImages new_URL trackImages mainUrl
     = mergeTrackImages new_URL (map Some (keptTrackImages trackImages mainUrl)) mainUrl"
    by (simp add: mergeTrackImages_eq keptTrackImages_idem)
next
  let ?kept = "keptTrackImages trackImages mainUrl"
  assume r: "mergeTrackImages new_URL trackImages mainUrl = Inr cs"
  then have parsed: "\<forall>e \<in> set (groupedTrackImages ?kept). new_URL (fst e) \<noteq> None"
    unfolding mergeTrackImages_eq by (rule pushResults_Inr)
  with r have cs: "cs = map (trackCandidate new_URL) (groupedTrackImages ?kept)"
    by (simp add: mergeTrackImages_eq pushResults_parsed)
  show "\<forall>c \<in> set cs. \<exists>img. Some img \<in> set trackImages \<and> ParsedTrackImage.url img \<noteq> mainUrl
                \<and> new_URL (ParsedTrackImage.url img) = Some (CoverArt.url c)"
  proof
    fix c assume "c \<in> set cs"
    with cs obtain e where e: "e \<in> set (groupedTrackImages ?kept)" "c = trackCandidate new_URL e"
      by auto
    from e(1) have "fst e \<in> fst ` set (groupedTrackImages ?kept)" by simp
    then have "fst e \<in> ParsedTrackImage.url ` set ?kept"
      by (simp only: fst_groupedTrackImages)
    then obtain img where img: "img \<in> set ?kept" "ParsedTrackImage.url img = fst e" by auto
    from e(1) parsed obtain u where u: "new_URL (fst e) = Some u" by auto
    with e(2) have "CoverArt.url c = u" by (simp add: trackCandidate_def)
    with img u show "\<exists>img. Some img \<in> set trackImages \<and> ParsedTrackImage.url img \<noteq> mainUrl
                \<and> new_URL (ParsedTrackImage.url img) = Some (CoverArt.url c)"
      by (auto simp: set_keptTrackImages)
  qed
next
  assume "\<forall>entry \<in> set trackImages.
          entry = None \<or> (\<exists>img. entry = Some img \<and> ParsedTrackImage.url img = mainUrl)"
  then have "set (keptTrackImages trackImages mainUrl) = {}"
    by (auto simp: set_keptTrackImages)
  then have "keptTrackImages trackImages mainUrl = []" by simp
  then show "mergeTrackImages new_URL trackImages mainUrl = Inr []"
    by (simp add: mergeTrackImages_eq groupedTrackImages_def firstOccurrences_def)
qed

lemma example_kept:
  "keptTrackImages exampleTrackImages ''https://cdn.example/z.jpg''
     = [\<lparr>ParsedTrackImage.url = ''https://cdn.example/a.jpg'', trackNumber = Some ''1''\<rparr>,
        \<lparr>ParsedTrackImage.url = ''https://cdn.example/b.jpg'', trackNumber = None\<rparr>,
        \<lparr>ParsedTrackImage.url = ''https://cdn.example/a.jpg'', trackNumber = Some ''3''\<rparr>,
        \<lparr>ParsedTrackImage.url = ''https://cdn.example/c.jpg'', trackNumber = Some ''4''\<rparr>]"
  by (simp add: keptTrackImages_def exampleTrackImages_def trackImage_def)

lemma example_cdn: "exampleParser (''https://cdn.example/'' @ f) = Some (cdnUrl f)"
  by (simp add: exampleParser_def)

theorem mergeTrackImages_one_candidate_per_url_witness:
  "mergeTrackImages exampleParser exampleTrackImages ''https://cdn.example/z.jpg''
     = Inr [\<lparr>url = cdnUrl ''a.jpg'', types = Some [Track], comment = Some ''Tracks 1, 3'',
               skipMaximisation = None\<rparr>,
            \<lparr>url = cdnUrl ''b.jpg'', types = Some [Track], comment = None,
               skipMaximisation = None\<rparr>,
            \<lparr>url = cdnUrl ''c.jpg'', types = Some [Track], comment = Some ''Track 4'',
               skipMaximisation = None\<rparr>]"
proof -
  let ?main = "''https://cdn.example/z.jpg''"
  have a: "exampleParser ''https://cdn.example/a.jpg'' = Some (cdnUrl ''a.jpg'')"
    using example_cdn [of "''a.jpg''"] by simp
  have b: "exampleParser ''https://cdn.example/b.jpg'' = Some (cdnUrl ''b.jpg'')"
    using example_cdn [of "''b.jpg''"] by simp
  have c: "exampleParser ''https://cdn.example/c.jpg'' = Some (cdnUrl ''c.jpg'')"
    using example_cdn [of "''c.jpg''"] by simp
  have parsed: "\<forall>img \<in> set (keptTrackImages exampleTrackImages ?main).
      exampleParser (ParsedTrackImage.url img) \<noteq> None"
    by (simp add: example_kept a b c)
  have first: "firstOccurrences (map ParsedTrackImage.url (keptTrackImages exampleTrackImages ?main))
      = [''https://cdn.example/a.jpg'', ''https://cdn.example/b.jpg'', ''https://cdn.example/c.jpg'']"
    by (simp add: example_kept firstOccurrences_def)
  have na: "knownTrackNumbers (keptTrackImages exampleTrackImages ?main) ''https://cdn.example/a.jpg''
      = [''1'', ''3'']"
    by (simp add: example_kept knownTrackNumbers_def)
  have nb: "knownTrackNumbers (keptTrackImages exampleTrackImages ?main) ''https://cdn.example/b.jpg''
      = []"
    by (simp add: example_kept knownTrackNumbers_def)
  have nc: "knownTrackNumbers (keptTrackImages exampleTrackImages ?main) ''https://cdn.example/c.jpg''
      = [''4'']"
    by (simp add: example_kept knownTrackNumbers_def)
  from parsed show ?thesis
    using mergeTrackImages_one_candidate_per_url [of exampleTrackImages ?main exampleParser]
    by (simp add: first na nb nc a b c)
qed

text \<open>
  Without the condition on the URLs the claim fails, and it does so on the example of the
  specification: \<^verbatim>\<open>new URL("a")\<close> throws, so that merging the images with the URLs
  \<^verbatim>\<open>a\<close>, \<^verbatim>\<open>a\<close> and \<^verbatim>\<open>b\<close>, none of them the main image's, gives no candidate at all.
\<close>

theorem mergeTrackImages_invalid_url_counterexample:
  "keptTrackImages [trackImage ''a'' (Some ''1''), trackImage ''a'' (Some ''2''), trackImage ''b'' None] ''z''
     = [\<lparr>ParsedTrackImage.url = ''a'', trackNumber = Some ''1''\<rparr>,
        \<lparr>ParsedTrackImage.url = ''a'', trackNumber = Some ''2''\<rparr>,
        \<lparr>ParsedTrackImage.url = ''b'', trackNumber = None\<rparr>]
   \<and> mergeTrackImages exampleParser
        [trackImage ''a'' (Some ''1''), trackImage ''a'' (Some ''2''), trackImage ''b'' None] ''z''
     = Inl (TypeError ''a'')"
  by (simp add: keptTrackImages_def trackImage_def mergeTrackImages_def groupBy_def exampleParser_def)

theorem mergeTrackImages_drops_witness:
  "mergeTrackImages exampleParser [None, trackImage ''z'' (Some ''1''), None] ''z'' = Inr []
   \<and> mergeTrackImages exampleParser exampleTrackImages ''https://cdn.example/z.jpg''
     = mergeTrackImages exampleParser
         [trackImage ''https://cdn.example/a.jpg'' (Some ''1''),
          trackImage ''https://cdn.example/b.jpg'' None,
          trackImage ''https://cdn.example/a.jpg'' (Some ''3''),
          trackImage ''https://cdn.example/c.jpg'' (Some ''4'')] ''https://cdn.example/z.jpg''"
proof -
  have only: "\<forall>entry \<in> set [None, trackImage ''z'' (Some ''1''), None].
      entry = None \<or> (\<exists>img. entry = Some img \<and> ParsedTrackImage.url img = ''z'')"
    by (simp add: trackImage_def)
  have "mergeTrackImages exampleParser [None, trackImage ''z'' (Some ''1''), None] ''z'' = Inr []"
    using mergeTrackImages_drops
      [of exampleParser "[None, trackImage ''z'' (Some ''1''), None]" "''z''"] only
    by blast
  moreover have "map Some (keptTrackImages exampleTrackImages ''https://cdn.example/z.jpg'')
      = [trackImage ''https://cdn.example/a.jpg'' (Some ''1''),
          trackImage ''https://cdn.example/b.jpg'' None,
          trackImage ''https://cdn.example/a.jpg'' (Some ''3''),
          trackImage ''https://cdn.example/c.jpg'' (Some ''4'')]"
    by (simp add: example_kept trackImage_def)
  ultimately show ?thesis
    using mergeTrackImages_drops
      [of exampleParser exampleTrackImages "''https://cdn.example/z.jpg''"]
    by simp
qed

subsection \<open>Provider resolution\<close>

lemma moreSpecific_irrefl: "\<not> moreSpecific a a"
  by (cases a) auto

lemma moreSpecific_trans: "moreSpecific a b \<Longrightarrow> moreSpecific b c \<Longrightarrow> moreSpecific a c"
  by (cases a; cases b; cases c) auto

lemma not_moreSpecific_trans: "\<not> moreSpecific a b \<Longrightarrow> \<not> moreSpecific b c \<Longrightarrow> \<not> moreSpecific a c"
  by (cases a; cases b; cases c) auto

lemma moreSpecific_total: "a \<noteq> b \<Longrightarrow> moreSpecific a b \<or> moreSpecific b a"
  by (cases a; cases b) auto

lemma moreSpecific_NoMatch: "moreSpecific a NoMatch \<longleftrightarrow> a \<noteq> NoMatch"
  by (cases a) auto

lemma foldl_better:
  "(foldl better b xs = b \<or> foldl better b xs \<in> set xs)
   \<and> \<not> moreSpecific b (foldl better b xs)
   \<and> (\<forall>x \<in> set xs. \<not> moreSpecific x (foldl better b xs))"
proof (induction xs arbitrary: b)
  case Nil
  show ?case by (simp add: moreSpecific_irrefl)
next
  case (Cons x xs)
  let ?r = "foldl better (better b x) xs"
  note IH = Cons.IH [of "better b x"]
  have b: "\<not> moreSpecific b (better b x)" by (simp add: better_def moreSpecific_irrefl) (metis moreSpecific_trans moreSpecific_irrefl)
  have x: "\<not> moreSpecific x (better b x)" by (simp add: better_def moreSpecific_irrefl)
  have "\<not> moreSpecific b ?r" using b IH not_moreSpecific_trans by blast
  moreover have "\<not> moreSpecific x ?r" using x IH not_moreSpecific_trans by blast
  moreover have "better b x = b \<or> better b x = x" by (simp add: better_def)
  then have "?r = b \<or> ?r \<in> set (x # xs)" using IH by auto
  ultimately show ?case using IH by simp
qed


lemma better_cases: "better b x = b \<or> better b x = x"
  by (simp add: better_def)

lemma mostSpecific_max:
  "pattern \<in> set (supportedDomains provider)
     \<Longrightarrow> \<not> moreSpecific (patternSpecificity pattern h) (mostSpecific provider h)"
  using foldl_better [of NoMatch "map (\<lambda>pattern. patternSpecificity pattern h) (supportedDomains provider)"]
  by (simp add: mostSpecific_def)

lemma mostSpecific_attained:
  "mostSpecific provider h = NoMatch
   \<or> (\<exists>pattern \<in> set (supportedDomains provider). mostSpecific provider h = patternSpecificity pattern h)"
  using foldl_better [of NoMatch "map (\<lambda>pattern. patternSpecificity pattern h) (supportedDomains provider)"]
  by (auto simp: mostSpecific_def)

lemma patternSpecificity_NoMatch: "patternSpecificity pattern h = NoMatch \<longleftrightarrow> \<not> matches pattern h"
  by (simp add: patternSpecificity_def)

lemma patternSpecificity_Exact:
  "patternSpecificity pattern h = ExactMatch \<longleftrightarrow> matches pattern h \<and> \<not> isWildcard pattern"
  by (simp add: patternSpecificity_def)

lemma patternSpecificity_Wildcard:
  "patternSpecificity pattern h = WildcardMatch n
     \<longleftrightarrow> matches pattern h \<and> isWildcard pattern \<and> length (literalSuffix pattern) = n"
  by (auto simp: patternSpecificity_def)

lemma mostSpecific_NoMatch: "mostSpecific provider h = NoMatch \<longleftrightarrow> \<not> providerMatches provider h"
proof
  assume n: "mostSpecific provider h = NoMatch"
  have "\<forall>pattern \<in> set (supportedDomains provider). \<not> matches pattern h"
  proof
    fix pattern assume "pattern \<in> set (supportedDomains provider)"
    from mostSpecific_max [OF this, of h] n
    have "patternSpecificity pattern h = NoMatch" by (simp add: moreSpecific_NoMatch)
    then show "\<not> matches pattern h" by (simp add: patternSpecificity_NoMatch)
  qed
  then show "\<not> providerMatches provider h" by (simp add: providerMatches_def list_ex_iff)
next
  assume "\<not> providerMatches provider h"
  then have "\<forall>pattern \<in> set (supportedDomains provider). patternSpecificity pattern h = NoMatch"
    by (simp add: providerMatches_def list_ex_iff patternSpecificity_NoMatch)
  with mostSpecific_attained [of provider h] show "mostSpecific provider h = NoMatch" by auto
qed

lemma mostSpecific_Exact:
  "mostSpecific provider h = ExactMatch
     \<longleftrightarrow> (\<exists>pattern \<in> set (supportedDomains provider). \<not> isWildcard pattern \<and> matches pattern h)"
proof
  assume e: "mostSpecific provider h = ExactMatch"
  with mostSpecific_attained [of provider h]
  show "\<exists>pattern \<in> set (supportedDomains provider). \<not> isWildcard pattern \<and> matches pattern h"
    by (metis patternSpecificity_Exact specificity.distinct(3))
next
  assume "\<exists>pattern \<in> set (supportedDomains provider). \<not> isWildcard pattern \<and> matches pattern h"
  then obtain pattern where p: "pattern \<in> set (supportedDomains provider)"
    "patternSpecificity pattern h = ExactMatch" by (auto simp: patternSpecificity_Exact)
  from mostSpecific_max [OF p(1), of h] p(2) show "mostSpecific provider h = ExactMatch"
    by (cases "mostSpecific provider h") auto
qed

lemma mostSpecific_Wildcard:
  "mostSpecific provider h = WildcardMatch n
     \<longleftrightarrow> (\<exists>pattern \<in> set (supportedDomains provider).
            isWildcard pattern \<and> matches pattern h \<and> length (literalSuffix pattern) = n)
         \<and> (\<forall>pattern \<in> set (supportedDomains provider).
              matches pattern h \<longrightarrow> isWildcard pattern \<and> length (literalSuffix pattern) \<le> n)"
proof
  assume w: "mostSpecific provider h = WildcardMatch n"
  with mostSpecific_attained [of provider h]
  have "\<exists>pattern \<in> set (supportedDomains provider).
            isWildcard pattern \<and> matches pattern h \<and> length (literalSuffix pattern) = n"
    by (metis patternSpecificity_Wildcard specificity.distinct(1))
  moreover have "\<forall>pattern \<in> set (supportedDomains provider).
              matches pattern h \<longrightarrow> isWildcard pattern \<and> length (literalSuffix pattern) \<le> n"
  proof (intro ballI impI)
    fix pattern assume p: "pattern \<in> set (supportedDomains provider)" "matches pattern h"
    from mostSpecific_max [OF p(1), of h] w p(2)
    show "isWildcard pattern \<and> length (literalSuffix pattern) \<le> n"
      by (auto simp: patternSpecificity_def split: if_splits)
  qed
  ultimately show "(\<exists>pattern \<in> set (supportedDomains provider).
            isWildcard pattern \<and> matches pattern h \<and> length (literalSuffix pattern) = n)
         \<and> (\<forall>pattern \<in> set (supportedDomains provider).
              matches pattern h \<longrightarrow> isWildcard pattern \<and> length (literalSuffix pattern) \<le> n)"
    by blast
next
  assume a: "(\<exists>pattern \<in> set (supportedDomains provider).
            isWildcard pattern \<and> matches pattern h \<and> length (literalSuffix pattern) = n)
         \<and> (\<forall>pattern \<in> set (supportedDomains provider).
              matches pattern h \<longrightarrow> isWildcard pattern \<and> length (literalSuffix pattern) \<le> n)"
  then obtain pattern where p: "pattern \<in> set (supportedDomains provider)"
    "patternSpecificity pattern h = WildcardMatch n" by (auto simp: patternSpecificity_Wildcard)
  from mostSpecific_attained [of provider h]
  show "mostSpecific provider h = WildcardMatch n"
  proof
    assume "mostSpecific provider h = NoMatch"
    with mostSpecific_max [OF p(1), of h] p(2) show ?thesis by simp
  next
    assume "\<exists>pattern \<in> set (supportedDomains provider).
        mostSpecific provider h = patternSpecificity pattern h"
    then obtain pattern' where p': "pattern' \<in> set (supportedDomains provider)"
      "mostSpecific provider h = patternSpecificity pattern' h" by blast
    from mostSpecific_max [OF p(1), of h] p(2) p'(2)
    have m: "matches pattern' h" by (auto simp: patternSpecificity_def split: if_splits)
    with a p'(1) have "isWildcard pattern' \<and> length (literalSuffix pattern') \<le> n" by blast
    with m p'(2) have "mostSpecific provider h = WildcardMatch (length (literalSuffix pattern'))"
      by (simp add: patternSpecificity_def)
    with mostSpecific_max [OF p(1), of h] p(2) \<open>isWildcard pattern' \<and> length (literalSuffix pattern') \<le> n\<close>
    show ?thesis by simp
  qed
qed


lemma foldl_preferred_Some:
  "\<exists>w. foldl (preferred h) (Some w0) ps = Some w \<and> (w = w0 \<or> w \<in> set ps)
       \<and> \<not> moreSpecific (mostSpecific w0 h) (mostSpecific w h)
       \<and> (\<forall>p \<in> set ps. \<not> moreSpecific (mostSpecific p h) (mostSpecific w h))"
proof (induction ps arbitrary: w0)
  case Nil
  show ?case by (simp add: moreSpecific_irrefl)
next
  case (Cons p ps)
  show ?case
  proof (cases "moreSpecific (mostSpecific p h) (mostSpecific w0 h)")
    case True
    then have step: "preferred h (Some w0) p = Some p" by (simp add: preferred_def)
    from Cons.IH [of p] obtain w where w: "foldl (preferred h) (Some p) ps = Some w"
      "w = p \<or> w \<in> set ps" "\<not> moreSpecific (mostSpecific p h) (mostSpecific w h)"
      "\<forall>x \<in> set ps. \<not> moreSpecific (mostSpecific x h) (mostSpecific w h)" by blast
    have "\<not> moreSpecific (mostSpecific w0 h) (mostSpecific p h)"
      using True moreSpecific_trans moreSpecific_irrefl by blast
    with w(3) have "\<not> moreSpecific (mostSpecific w0 h) (mostSpecific w h)"
      using not_moreSpecific_trans by blast
    with w step show ?thesis by auto
  next
    case False
    then have step: "preferred h (Some w0) p = Some w0" by (simp add: preferred_def)
    from Cons.IH [of w0] obtain w where w: "foldl (preferred h) (Some w0) ps = Some w"
      "w = w0 \<or> w \<in> set ps" "\<not> moreSpecific (mostSpecific w0 h) (mostSpecific w h)"
      "\<forall>x \<in> set ps. \<not> moreSpecific (mostSpecific x h) (mostSpecific w h)" by blast
    from False w(3) have "\<not> moreSpecific (mostSpecific p h) (mostSpecific w h)"
      using not_moreSpecific_trans by blast
    with w step show ?thesis by auto
  qed
qed

lemma foldl_preferred_None:
  "foldl (preferred h) None ps =
     (case dropWhile (\<lambda>p. mostSpecific p h = NoMatch) ps of
        [] \<Rightarrow> None
      | p # rest \<Rightarrow> foldl (preferred h) (Some p) rest)"
proof (induction ps)
  case Nil
  show ?case by simp
next
  case (Cons p ps)
  have "preferred h None p = (if mostSpecific p h = NoMatch then None else Some p)"
    by (simp add: preferred_def)
  with Cons.IH show ?case by simp
qed

lemma resolveProvider_winner:
  assumes "p \<in> set providers" "providerMatches p h"
  shows "\<exists>w. resolveProvider providers h = Some w \<and> w \<in> set providers \<and> providerMatches w h
           \<and> (\<forall>x \<in> set providers. \<not> moreSpecific (mostSpecific x h) (mostSpecific w h))"
proof -
  let ?none = "\<lambda>p. mostSpecific p h = NoMatch"
  from assms have "\<not> ?none p" by (simp add: mostSpecific_NoMatch)
  with assms(1) have "dropWhile ?none providers \<noteq> []" by (auto simp: dropWhile_eq_Nil_conv)
  then obtain p0 rest where d: "dropWhile ?none providers = p0 # rest"
    by (cases "dropWhile ?none providers") auto
  then have p0: "\<not> ?none p0" using hd_dropWhile [of ?none providers] by auto
  from foldl_preferred_Some [of h p0 rest] obtain w where
    w: "foldl (preferred h) (Some p0) rest = Some w" "w = p0 \<or> w \<in> set rest"
      "\<not> moreSpecific (mostSpecific p0 h) (mostSpecific w h)"
      "\<forall>x \<in> set rest. \<not> moreSpecific (mostSpecific x h) (mostSpecific w h)" by blast
  have r: "resolveProvider providers h = Some w"
    by (simp add: resolveProvider_def foldl_preferred_None d w(1))
  have "set (p0 # rest) \<subseteq> set providers" using set_dropWhileD [of _ ?none providers] d by auto
  with w(2) have mem: "w \<in> set providers" by auto
  have "mostSpecific w h \<noteq> NoMatch"
  proof
    assume "mostSpecific w h = NoMatch"
    with w(3) p0 show False by (simp add: moreSpecific_NoMatch)
  qed
  then have m: "providerMatches w h" by (simp add: mostSpecific_NoMatch)
  have "\<forall>x \<in> set providers. \<not> moreSpecific (mostSpecific x h) (mostSpecific w h)"
  proof
    fix x assume "x \<in> set providers"
    then have "x \<in> set (takeWhile ?none providers) \<or> x \<in> set (p0 # rest)"
      using takeWhile_dropWhile_id [of ?none providers] d by (metis Un_iff set_append)
    then show "\<not> moreSpecific (mostSpecific x h) (mostSpecific w h)"
    proof
      assume "x \<in> set (takeWhile ?none providers)"
      then have "mostSpecific x h = NoMatch" using set_takeWhileD by fastforce
      then show ?thesis by simp
    next
      assume "x \<in> set (p0 # rest)"
      with w(3,4) show ?thesis by auto
    qed
  qed
  with r mem m show ?thesis by blast
qed

lemma wildcard_pattern: "isWildcard pattern \<Longrightarrow> pattern = ''*.'' @ literalSuffix pattern"
  unfolding isWildcard_def literalSuffix_def by (metis append_take_drop_id)

lemma wildcard_tie:
  assumes "isWildcard a" "isWildcard b" "matches a h" "matches b h"
    "length (literalSuffix a) = length (literalSuffix b)"
  shows "a = b"
proof -
  let ?s = "literalSuffix a" and ?t = "literalSuffix b"
  from assms have a: "h = ?s \<or> suffix (''.'' @ ?s) h" and b: "h = ?t \<or> suffix (''.'' @ ?t) h"
    by (simp_all add: matches_def)
  have len: "\<And>s. suffix (''.'' @ s) h \<Longrightarrow> length s < length h"
    using suffix_length_le by fastforce
  have "?s = ?t"
  proof (cases "h = ?s")
    case True
    with b len [of ?t] assms(5) show ?thesis by auto
  next
    case False
    with a have sa: "suffix (''.'' @ ?s) h" by simp
    show ?thesis
    proof (cases "h = ?t")
      case True
      with sa len [of ?s] assms(5) show ?thesis by auto
    next
      case False
      with b have sb: "suffix (''.'' @ ?t) h" by simp
      from sa obtain x where x: "h = x @ ''.'' @ ?s" by (auto simp: suffix_def)
      from sb obtain y where y: "h = y @ ''.'' @ ?t" by (auto simp: suffix_def)
      from x y assms(5) show ?thesis by auto
    qed
  qed
  with wildcard_pattern [OF assms(1)] wildcard_pattern [OF assms(2)] show ?thesis by simp
qed


text \<open>
  C3: when two providers of the registry both match a host, the resolution selects one
  winner, a provider of the registry that matches the host and whose most specific match
  neither of the two (nor any other provider) exceeds; a provider that another one
  exceeds is not the winner. A provider with an exact match for the host exceeds one
  whose matches are all wildcard matches, and of two providers with wildcard matches
  only, the one with the longer literal suffix exceeds the other. Two providers tie only
  when they register the same pattern (for exact patterns, the same up to letter case).
\<close>

theorem resolveProvider_precedence:
  assumes "p \<in> set providers" "q \<in> set providers"
    "providerMatches p h" "providerMatches q h"
  shows "(\<exists>w. resolveProvider providers h = Some w \<and> w \<in> set providers
            \<and> providerMatches w h
            \<and> \<not> moreSpecific (mostSpecific p h) (mostSpecific w h)
            \<and> \<not> moreSpecific (mostSpecific q h) (mostSpecific w h)
            \<and> (moreSpecific (mostSpecific p h) (mostSpecific q h) \<longrightarrow> w \<noteq> q))
       \<and> ((\<exists>a \<in> set (supportedDomains p). \<not> isWildcard a \<and> matches a h)
            \<and> \<not> (\<exists>b \<in> set (supportedDomains q). \<not> isWildcard b \<and> matches b h)
          \<longrightarrow> moreSpecific (mostSpecific p h) (mostSpecific q h))
       \<and> (\<not> (\<exists>a \<in> set (supportedDomains p). \<not> isWildcard a \<and> matches a h)
            \<and> (\<exists>a \<in> set (supportedDomains p). matches a h
                  \<and> (\<forall>b \<in> set (supportedDomains q). matches b h
                        \<longrightarrow> isWildcard b
                            \<and> length (literalSuffix b) < length (literalSuffix a)))
          \<longrightarrow> moreSpecific (mostSpecific p h) (mostSpecific q h))
       \<and> (mostSpecific p h = mostSpecific q h
          \<longrightarrow> (\<exists>a \<in> set (supportedDomains p). \<exists>b \<in> set (supportedDomains q).
                  matches a h \<and> matches b h
                  \<and> (a = b \<or> (\<not> isWildcard a \<and> \<not> isWildcard b
                                \<and> map toLower a = map toLower b))))"
proof (intro conjI impI)
  from resolveProvider_winner [OF assms(1,3)] obtain w where
    w: "resolveProvider providers h = Some w" "w \<in> set providers" "providerMatches w h"
      "\<forall>x \<in> set providers. \<not> moreSpecific (mostSpecific x h) (mostSpecific w h)" by blast
  have "moreSpecific (mostSpecific p h) (mostSpecific q h) \<longrightarrow> w \<noteq> q"
    using w(4) assms(1) by blast
  with w assms(1,2)
  show "\<exists>w. resolveProvider providers h = Some w \<and> w \<in> set providers
            \<and> providerMatches w h
            \<and> \<not> moreSpecific (mostSpecific p h) (mostSpecific w h)
            \<and> \<not> moreSpecific (mostSpecific q h) (mostSpecific w h)
            \<and> (moreSpecific (mostSpecific p h) (mostSpecific q h) \<longrightarrow> w \<noteq> q)"
    by blast
next
  assume a: "(\<exists>a \<in> set (supportedDomains p). \<not> isWildcard a \<and> matches a h)
            \<and> \<not> (\<exists>b \<in> set (supportedDomains q). \<not> isWildcard b \<and> matches b h)"
  then have "mostSpecific p h = ExactMatch" "mostSpecific q h \<noteq> ExactMatch"
    by (simp_all only: mostSpecific_Exact not_False_eq_True)
  then show "moreSpecific (mostSpecific p h) (mostSpecific q h)"
    by (cases "mostSpecific q h") auto
next
  assume a: "\<not> (\<exists>a \<in> set (supportedDomains p). \<not> isWildcard a \<and> matches a h)
            \<and> (\<exists>a \<in> set (supportedDomains p). matches a h
                  \<and> (\<forall>b \<in> set (supportedDomains q). matches b h
                        \<longrightarrow> isWildcard b
                            \<and> length (literalSuffix b) < length (literalSuffix a)))"
  then obtain a where pa: "a \<in> set (supportedDomains p)" "matches a h"
    "\<forall>b \<in> set (supportedDomains q). matches b h
        \<longrightarrow> isWildcard b \<and> length (literalSuffix b) < length (literalSuffix a)" by blast
  from a have pe: "mostSpecific p h \<noteq> ExactMatch" by (simp only: mostSpecific_Exact) blast
  from assms(3) have pn: "mostSpecific p h \<noteq> NoMatch" by (simp add: mostSpecific_NoMatch)
  from pe pn obtain n where n: "mostSpecific p h = WildcardMatch n"
    by (cases "mostSpecific p h") auto
  with pa(1,2) have an: "length (literalSuffix a) \<le> n" by (simp add: mostSpecific_Wildcard)
  from pa(3) have qe: "mostSpecific q h \<noteq> ExactMatch" by (simp only: mostSpecific_Exact) blast
  from assms(4) have qn: "mostSpecific q h \<noteq> NoMatch" by (simp add: mostSpecific_NoMatch)
  from qe qn obtain m where m: "mostSpecific q h = WildcardMatch m"
    by (cases "mostSpecific q h") auto
  then obtain b where b: "b \<in> set (supportedDomains q)" "matches b h"
    "length (literalSuffix b) = m" by (auto simp: mostSpecific_Wildcard)
  with pa(3) have "m < length (literalSuffix a)" by blast
  with an n m show "moreSpecific (mostSpecific p h) (mostSpecific q h)" by simp
next
  assume eq: "mostSpecific p h = mostSpecific q h"
  from assms(3) have pn: "mostSpecific p h \<noteq> NoMatch" by (simp add: mostSpecific_NoMatch)
  show "\<exists>a \<in> set (supportedDomains p). \<exists>b \<in> set (supportedDomains q).
          matches a h \<and> matches b h
          \<and> (a = b \<or> (\<not> isWildcard a \<and> \<not> isWildcard b \<and> map toLower a = map toLower b))"
  proof (cases "mostSpecific p h")
    case NoMatch
    with pn show ?thesis by simp
  next
    case (WildcardMatch n)
    then obtain a where a: "a \<in> set (supportedDomains p)" "isWildcard a" "matches a h"
      "length (literalSuffix a) = n" by (auto simp: mostSpecific_Wildcard)
    from WildcardMatch eq have "mostSpecific q h = WildcardMatch n" by simp
    then obtain b where b: "b \<in> set (supportedDomains q)" "isWildcard b" "matches b h"
      "length (literalSuffix b) = n" by (auto simp: mostSpecific_Wildcard)
    from a b have "a = b" by (intro wildcard_tie [of a b h]) simp_all
    with a b show ?thesis by blast
  next
    case ExactMatch
    then obtain a where a: "a \<in> set (supportedDomains p)" "\<not> isWildcard a" "matches a h"
      by (auto simp: mostSpecific_Exact)
    from ExactMatch eq have "mostSpecific q h = ExactMatch" by simp
    then obtain b where b: "b \<in> set (supportedDomains q)" "\<not> isWildcard b" "matches b h"
      by (auto simp: mostSpecific_Exact)
    from a b have "map toLower a = map toLower b" by (simp add: matches_def)
    with a b show ?thesis by blast
  qed
qed

lemma example_matches:
  "matches ''example.com'' ''example.com''" "\<not> isWildcard ''example.com''"
  "matches ''*.example.com'' ''example.com''" "isWildcard ''*.example.com''"
  by (simp_all add: matches_def isWildcard_def literalSuffix_def)

theorem resolveProvider_precedence_witness:
  "providerMatches exampleProvider ''example.com''
   \<and> providerMatches listProvider ''example.com''
   \<and> resolveProvider [listProvider, exampleProvider] ''example.com'' = Some exampleProvider"
proof -
  let ?h = "''example.com''"
  have de: "supportedDomains exampleProvider = [''example.com'']"
    by (simp add: exampleProvider_def)
  have dl: "supportedDomains listProvider = [''*.example.com'']"
    by (simp add: listProvider_def)
  have me: "providerMatches exampleProvider ?h"
    by (simp add: providerMatches_def de example_matches)
  have ml: "providerMatches listProvider ?h"
    by (simp add: providerMatches_def dl example_matches)
  have exact: "(\<exists>a \<in> set (supportedDomains exampleProvider). \<not> isWildcard a \<and> matches a ?h)
      \<and> \<not> (\<exists>b \<in> set (supportedDomains listProvider). \<not> isWildcard b \<and> matches b ?h)"
    by (simp add: de dl example_matches)
  have "\<exists>w. resolveProvider [listProvider, exampleProvider] ?h = Some w
      \<and> w \<in> set [listProvider, exampleProvider] \<and> w \<noteq> listProvider"
    using resolveProvider_precedence
      [of exampleProvider "[listProvider, exampleProvider]" listProvider ?h] me ml exact
    by auto
  then have "resolveProvider [listProvider, exampleProvider] ?h = Some exampleProvider"
    by auto
  with me ml show ?thesis by simp
qed

end
